theory Spec2Isabelle
  imports Main "HOL-Library.AList"
begin

section \<open>The memory manager of general/mm.cpp\<close>

text \<open>
  The manager keeps, for every registered host buffer, a record that says where the
  valid copy of the data lives (host or device), and it caches the interior pointers
  (aliases) it has been asked about. The model below follows \<^verbatim>\<open>mm.cpp\<close> function
  by function, from \<^verbatim>\<open>Known\<close> to \<^verbatim>\<open>mm::memcpy\<close>; the OCCA wrapper
  \<^verbatim>\<open>mm::Memory\<close> and \<^verbatim>\<open>DumpMode\<close>, which only prints, are left out. Pointers
  are addresses, \<open>0\<close> is \<^verbatim>\<open>nullptr\<close>. A registered region
  \<open>[base, base + bytes)\<close> is an object of the program, so \<open>base + bytes\<close> is
  computed without wrap-around (pointer arithmetic past an object is undefined in C++).
\<close>

type_synonym addr = nat

subsection \<open>Fatal conditions\<close>

text \<open>
  Modelled from the spec: \<^verbatim>\<open>mfem_error\<close> and \<^verbatim>\<open>MFEM_ASSERT\<close> are defined in a
  header that is not under src/. The spec: every failure is fatal and ends the
  operation at once; invariant violations are surfaced only in debug builds.

  A failing \<^verbatim>\<open>assert\<close> ends the program too; \<^verbatim>\<open>unordered_map::at\<close> throws
  \<^verbatim>\<open>std::out_of_range\<close> on a missing key. \<open>dangling\<close> stands for reading
  through a pointer to storage that never held an object.
\<close>

datatype error =
    mfem_error string
  | assert_failed
  | out_of_range
  | dangling

subsection \<open>Records and the ledger\<close>

text \<open>
  \<^verbatim>\<open>mm::memory\<close>: \<open>host\<close> is true when the host copy is the valid one
  (HostValid), false when the device copy is (DeviceValid). \<open>aliases\<close> holds the
  addresses of the \<^verbatim>\<open>mm::alias\<close> objects created for this buffer.
\<close>

record memory =
  bytes :: nat
  h_ptr :: addr
  d_ptr :: addr
  aliases :: "addr list"
  host :: bool

text \<open>
  \<^verbatim>\<open>mm::alias\<close>: \<open>mem\<close> is a \<^verbatim>\<open>memory*\<close>, the address of the owner's node in
  \<open>memories\<close>. It is taken from a reference and is never null.
\<close>

record mm_alias =
  mem :: addr
  offset :: int

text \<open>
  \<^verbatim>\<open>mm::ledger\<close>: two \<^verbatim>\<open>unordered_map\<close>s keyed by \<^verbatim>\<open>const void*\<close>. They are
  association lists with distinct keys; the order of the list stands for the iteration
  order of the container, which C++ does not fix. An entry of \<open>memories\<close> is the key,
  the address of the node that holds the record (nodes of an \<^verbatim>\<open>unordered_map\<close> never
  move; this is what \<^verbatim>\<open>&maps.memories.at(base)\<close> yields), and the record. The values
  of \<open>aliases\<close> are the addresses of heap objects (\<^verbatim>\<open>const alias*\<close>).
\<close>

record ledger =
  memories :: "(addr \<times> addr \<times> memory) list"
  aliases :: "(addr \<times> addr) list"

text \<open>Calls into the backend (\<^verbatim>\<open>cuda.hpp\<close>) and \<^verbatim>\<open>std::memcpy\<close>, in the order issued.\<close>

datatype event =
    CuMemAlloc addr nat
  | CuMemcpyHtoD addr addr nat
  | CuMemcpyDtoH addr addr nat
  | CuMemcpyDtoD addr addr nat
  | CuMemcpyDtoDAsync addr addr nat
  | std_memcpy addr addr nat

text \<open>
  The state of the manager: the ledger; what the nodes erased from \<open>memories\<close> still
  hold, by node address (\<^verbatim>\<open>erase\<close> frees the node, the alias objects keep its
  address, and the functions that follow \<^verbatim>\<open>alias->mem\<close> read and write that storage);
  the heap objects made by \<^verbatim>\<open>new mm::alias\<close> (never deleted by this file); and the
  backend calls issued so far.
\<close>

record mm_state =
  mm_maps :: ledger
  freed :: "addr \<rightharpoonup> memory"
  alias_store :: "addr \<rightharpoonup> mm_alias"
  events :: "event list"

subsection \<open>What the file takes from outside\<close>

text \<open>
  The \<^verbatim>\<open>Device\<close> queries, the build flags and the allocators are not defined in
  \<^verbatim>\<open>mm.cpp\<close>; they are parameters of the model.
  \<^item> \<open>MFEM_DEBUG\<close>: \<^verbatim>\<open>MFEM_ASSERT\<close> checks its condition; otherwise it is empty.
  \<^item> \<open>MFEM_DEBUG_MM\<close>: the \<^verbatim>\<open>#ifdef\<close> block of \<^verbatim>\<open>InsertAlias\<close> is compiled.
  \<^item> \<open>NDEBUG\<close>: \<^verbatim>\<open>assert\<close> is empty.
  \<^item> \<open>new_node\<close>: the address of the node \<^verbatim>\<open>emplace\<close> allocates in \<open>memories\<close>,
    given the addresses of the live nodes (it may be the address of a freed node).
  \<^item> \<open>new_alias\<close>: the address \<^verbatim>\<open>new mm::alias\<close> returns, given the live objects.
  \<^item> \<open>cu_alloc\<close>: the pointer \<^verbatim>\<open>CuMemAlloc\<close> leaves in \<^verbatim>\<open>d_ptr\<close>, given the calls so
    far and the size (\<open>0\<close>: it left \<^verbatim>\<open>nullptr\<close>).
  \<^item> \<open>dtod_ret\<close>: the pointer the device-to-device copy returns (asynchronous or not).
\<close>

record env =
  UsingMM :: bool
  DeviceDisabled :: bool
  DeviceHasBeenEnabled :: bool
  UsingOcca :: bool
  UsingDevice :: bool
  UsingHost :: bool
  MFEM_DEBUG :: bool
  MFEM_DEBUG_MM :: bool
  NDEBUG :: bool
  new_node :: "addr list \<Rightarrow> addr"
  new_alias :: "(addr \<rightharpoonup> mm_alias) \<Rightarrow> addr"
  cu_alloc :: "event list \<Rightarrow> nat \<Rightarrow> addr"
  dtod_ret :: "bool \<Rightarrow> addr \<Rightarrow> addr \<Rightarrow> nat \<Rightarrow> addr"

subsection \<open>Small steps on the state\<close>

definition lookup_memory :: "mm_state \<Rightarrow> addr \<Rightarrow> memory option" where
  "lookup_memory s b = map_option snd (map_of (memories (mm_maps s)) b)"

definition lookup_alias :: "mm_state \<Rightarrow> addr \<Rightarrow> addr option" where
  "lookup_alias s p = map_of (ledger.aliases (mm_maps s)) p"

definition update_memory :: "addr \<Rightarrow> (memory \<Rightarrow> memory) \<Rightarrow> mm_state \<Rightarrow> mm_state" where
  "update_memory b f s =
     s\<lparr>mm_maps := (mm_maps s)
         \<lparr>memories := AList.map_entry b (apsnd f) (memories (mm_maps s))\<rparr>\<rparr>"

text \<open>
  Reading and writing through a \<^verbatim>\<open>memory*\<close>: the record of the live node at that
  address, or else what the freed node at that address still holds.
\<close>

fun node_record :: "(addr \<times> addr \<times> memory) list \<Rightarrow> addr \<Rightarrow> memory option" where
  "node_record [] nd = None"
| "node_record ((k, nd', m) # rest) nd = (if nd' = nd then Some m else node_record rest nd)"

fun map_node ::
  "addr \<Rightarrow> (memory \<Rightarrow> memory) \<Rightarrow> (addr \<times> addr \<times> memory) list \<Rightarrow> (addr \<times> addr \<times> memory) list"
where
  "map_node nd f [] = []"
| "map_node nd f ((k, nd', m) # rest) =
     (if nd' = nd then (k, nd', f m) # rest else (k, nd', m) # map_node nd f rest)"

definition deref_memory :: "mm_state \<Rightarrow> addr \<Rightarrow> memory option" where
  "deref_memory s nd =
     (case node_record (memories (mm_maps s)) nd of Some m \<Rightarrow> Some m | None \<Rightarrow> freed s nd)"

definition write_memory :: "addr \<Rightarrow> (memory \<Rightarrow> memory) \<Rightarrow> mm_state \<Rightarrow> mm_state" where
  "write_memory nd f s =
     (case node_record (memories (mm_maps s)) nd of
        Some m \<Rightarrow> s\<lparr>mm_maps := (mm_maps s)\<lparr>memories := map_node nd f (memories (mm_maps s))\<rparr>\<rparr>
      | None \<Rightarrow> s\<lparr>freed := (freed s)(nd := map_option f (freed s nd))\<rparr>)"

definition log_event :: "event \<Rightarrow> mm_state \<Rightarrow> mm_state" where
  "log_event ev s = s\<lparr>events := events s @ [ev]\<rparr>"

text \<open>\<^verbatim>\<open>static_cast<char*>(p) + off\<close> with a signed offset.\<close>

definition ptr_add :: "addr \<Rightarrow> int \<Rightarrow> addr" where
  "ptr_add p off = nat (int p + off)"

text \<open>\<^verbatim>\<open>CuMemAlloc(&m.d_ptr, n)\<close> for the record \<open>m\<close> registered at \<open>b\<close>.\<close>

definition alloc_d_ptr :: "env \<Rightarrow> addr \<Rightarrow> nat \<Rightarrow> mm_state \<Rightarrow> mm_state" where
  "alloc_d_ptr e b n s =
     (let d = cu_alloc e (events s) n
      in log_event (CuMemAlloc d n) (update_memory b (\<lambda>m. m\<lparr>d_ptr := d\<rparr>) s))"

text \<open>\<^verbatim>\<open>if (!m.d_ptr) { CuMemAlloc(&m.d_ptr, n); }\<close>\<close>

definition ensure_d_ptr :: "env \<Rightarrow> addr \<Rightarrow> memory \<Rightarrow> nat \<Rightarrow> mm_state \<Rightarrow> addr \<times> mm_state" where
  "ensure_d_ptr e b m n s =
     (if d_ptr m = 0 then (cu_alloc e (events s) n, alloc_d_ptr e b n s) else (d_ptr m, s))"

text \<open>The same two steps through a \<^verbatim>\<open>memory*\<close>, as \<^verbatim>\<open>PtrAlias\<close> does them.\<close>

definition alloc_d_ptr_at :: "env \<Rightarrow> addr \<Rightarrow> nat \<Rightarrow> mm_state \<Rightarrow> mm_state" where
  "alloc_d_ptr_at e nd n s =
     (let d = cu_alloc e (events s) n
      in log_event (CuMemAlloc d n) (write_memory nd (\<lambda>m. m\<lparr>d_ptr := d\<rparr>) s))"

definition ensure_d_ptr_at ::
  "env \<Rightarrow> addr \<Rightarrow> memory \<Rightarrow> nat \<Rightarrow> mm_state \<Rightarrow> addr \<times> mm_state" where
  "ensure_d_ptr_at e nd m n s =
     (if d_ptr m = 0 then (cu_alloc e (events s) n, alloc_d_ptr_at e nd n s)
      else (d_ptr m, s))"

text \<open>
  Modelled from the spec: the constructor \<^verbatim>\<open>memory(ptr, bytes)\<close> is declared in a header
  that is not under src/. The spec: a new record has the given size, state HostValid
  and no device pointer.
\<close>

definition new_memory :: "addr \<Rightarrow> nat \<Rightarrow> memory" where
  "new_memory p n = \<lparr>bytes = n, h_ptr = p, d_ptr = 0, aliases = [], host = True\<rparr>"

subsection \<open>Known, IsAlias, InsertAlias, Alias\<close>

definition Known :: "ledger \<Rightarrow> addr \<Rightarrow> bool" where
  "Known maps ptr = (map_of (memories maps) ptr \<noteq> None)"

text \<open>The loop of \<^verbatim>\<open>IsAlias\<close> over the registered buffers; \<open>0\<close> is \<^verbatim>\<open>nullptr\<close>.\<close>

fun IsAlias_scan :: "(addr \<times> addr \<times> memory) list \<Rightarrow> addr \<Rightarrow> addr" where
  "IsAlias_scan [] ptr = 0"
| "IsAlias_scan ((b_ptr, nd, m) # rest) ptr =
     (if b_ptr > ptr then IsAlias_scan rest ptr
      else if ptr < b_ptr + bytes m then b_ptr
      else IsAlias_scan rest ptr)"

definition IsAlias :: "env \<Rightarrow> ledger \<Rightarrow> addr \<Rightarrow> error + addr" where
  "IsAlias e maps ptr =
     (if MFEM_DEBUG e \<and> Known maps ptr
      then Inl (mfem_error ''Ptr is an already known address!'')
      else Inr (IsAlias_scan (memories maps) ptr))"

text \<open>
  The check compiled under \<^verbatim>\<open>MFEM_DEBUG_MM\<close>: an alias object of the node at \<open>nd\<close>
  has the offset.
\<close>

definition offset_taken :: "mm_state \<Rightarrow> addr \<Rightarrow> int \<Rightarrow> addr list \<Rightarrow> bool" where
  "offset_taken s nd off as =
     list_ex (\<lambda>a. case alias_store s a of
                    None \<Rightarrow> False
                  | Some r \<Rightarrow> mem r = nd \<and> offset r = off) as"

definition InsertAlias :: "env \<Rightarrow> mm_state \<Rightarrow> addr \<Rightarrow> addr \<Rightarrow> error + (addr \<times> mm_state)" where
  "InsertAlias e s base ptr =
     (case map_of (memories (mm_maps s)) base of
        None \<Rightarrow> Inl out_of_range
      | Some (nd, m) \<Rightarrow>
          let off = int ptr - int base;
              a = new_alias e (alias_store s);
              s1 = s\<lparr>alias_store := (alias_store s)(a \<mapsto> \<lparr>mem = nd, offset = off\<rparr>)\<rparr>;
              s2 = (if lookup_alias s1 ptr = None
                    then s1\<lparr>mm_maps := (mm_maps s1)
                           \<lparr>ledger.aliases := ledger.aliases (mm_maps s1) @ [(ptr, a)]\<rparr>\<rparr>
                    else s1)
          in if MFEM_DEBUG_MM e
             then (if offset_taken s2 nd off (sort (memory.aliases m))
                   then Inl (mfem_error ''a->offset == offset'')
                   else Inr (ptr, update_memory base
                          (\<lambda>m. m\<lparr>memory.aliases := sort (memory.aliases m) @ [a]\<rparr>) s2))
             else Inr (ptr, update_memory base
                          (\<lambda>m. m\<lparr>memory.aliases := memory.aliases m @ [a]\<rparr>) s2))"

definition Alias :: "env \<Rightarrow> mm_state \<Rightarrow> addr \<Rightarrow> error + (bool \<times> mm_state)" where
  "Alias e s ptr =
     (if lookup_alias s ptr \<noteq> None then Inr (True, s)
      else case IsAlias e (mm_maps s) ptr of
             Inl err \<Rightarrow> Inl err
           | Inr base \<Rightarrow>
               if base = 0 then Inr (False, s)
               else (case InsertAlias e s base ptr of
                       Inl err \<Rightarrow> Inl err
                     | Inr (p, s') \<Rightarrow> Inr (True, s')))"

subsection \<open>Insert and Erase\<close>

definition Insert :: "env \<Rightarrow> mm_state \<Rightarrow> addr \<Rightarrow> nat \<Rightarrow> error + (addr \<times> mm_state)" where
  "Insert e s ptr n =
     (if \<not> UsingMM e then Inr (ptr, s)
      else if Known (mm_maps s) ptr
      then Inl (mfem_error ''Trying to add an already present address!'')
      else let nd = new_node e (map (\<lambda>(k, nd, m). nd) (memories (mm_maps s)))
           in Inr (ptr, s\<lparr>mm_maps := (mm_maps s)
                          \<lparr>memories := memories (mm_maps s) @ [(ptr, nd, new_memory ptr n)]\<rparr>,
                        freed := (freed s)(nd := None)\<rparr>))"

text \<open>
  \<^verbatim>\<open>maps.aliases.erase(alias)\<close> is given the address of the alias object. The map is
  keyed by \<^verbatim>\<open>const void*\<close>, so this is the overload that erases by key, with that
  address as the key. \<^verbatim>\<open>maps.memories.erase(ptr)\<close> frees the node; its storage keeps
  the record as it was left.
\<close>

definition Erase :: "env \<Rightarrow> mm_state \<Rightarrow> addr \<Rightarrow> error + (addr \<times> mm_state)" where
  "Erase e s ptr =
     (if \<not> UsingMM e then Inr (ptr, s)
      else if \<not> Known (mm_maps s) ptr
      then Inl (mfem_error ''Trying to erase an unknown pointer!'')
      else case map_of (memories (mm_maps s)) ptr of
             None \<Rightarrow> Inl out_of_range
           | Some (nd, m) \<Rightarrow>
               let al = fold AList.delete (memory.aliases m) (ledger.aliases (mm_maps s));
                   s1 = s\<lparr>mm_maps := (mm_maps s)\<lparr>ledger.aliases := al\<rparr>\<rparr>;
                   s2 = update_memory ptr (\<lambda>m. m\<lparr>memory.aliases := []\<rparr>) s1
               in Inr (ptr, s2\<lparr>mm_maps := (mm_maps s2)
                               \<lparr>memories := AList.delete ptr (memories (mm_maps s2))\<rparr>,
                             freed := (freed s2)(nd \<mapsto> m\<lparr>memory.aliases := []\<rparr>)\<rparr>))"

subsection \<open>Ptr\<close>

definition MmDeviceIniFilter :: "env \<Rightarrow> error + bool" where
  "MmDeviceIniFilter e =
     (if \<not> UsingMM e then Inr True
      else if DeviceDisabled e then Inr True
      else if \<not> DeviceHasBeenEnabled e then Inr True
      else if UsingOcca e then Inl (mfem_error ''Device::UsingOcca()'')
      else Inr False)"

definition PtrKnown :: "env \<Rightarrow> mm_state \<Rightarrow> addr \<Rightarrow> error + (addr \<times> mm_state)" where
  "PtrKnown e s ptr =
     (case lookup_memory s ptr of
        None \<Rightarrow> Inl out_of_range
      | Some base \<Rightarrow>
          let hst = host base; device = \<not> hst; n = bytes base; gpu = UsingDevice e
          in if hst \<and> \<not> gpu then Inr (ptr, s)
             else if n = 0 then Inl (mfem_error ''PtrKnown bytes==0'')
             else (case ensure_d_ptr e ptr base n s of (d, s1) \<Rightarrow>
               if d = 0 then Inl (mfem_error ''PtrKnown !base->d_ptr'')
               else if device \<and> gpu then Inr (d, s1)
               else if ptr = 0 then Inl (mfem_error ''PtrKnown !ptr'')
               else if device \<and> \<not> gpu
               then Inr (ptr, update_memory ptr (\<lambda>m. m\<lparr>host := True\<rparr>)
                               (log_event (CuMemcpyDtoH ptr d n) s1))
               else if \<not> (hst \<and> gpu) then Inl (mfem_error ''PtrKnown !(host && gpu)'')
               else Inr (d, update_memory ptr (\<lambda>m. m\<lparr>host := False\<rparr>)
                               (log_event (CuMemcpyHtoD d ptr n) s1))))"

text \<open>
  In \<^verbatim>\<open>PtrAlias\<close>, \<^verbatim>\<open>assert(base)\<close> tests the owner pointer of the alias, which is
  never null; it is no branch of the model. The record is read and written through
  \<^verbatim>\<open>alias->mem\<close>, whether or not the owner is still registered. \<open>dangling\<close> is left
  for a pointer to storage that never held an object, which no sequence of the
  operations produces (see \<open>pointers_ok\<close> below).
\<close>

definition PtrAlias :: "env \<Rightarrow> mm_state \<Rightarrow> addr \<Rightarrow> error + (addr \<times> mm_state)" where
  "PtrAlias e s ptr =
     (let gpu = UsingDevice e
      in case lookup_alias s ptr of
        None \<Rightarrow> Inl out_of_range
      | Some a \<Rightarrow>
         (case alias_store s a of
            None \<Rightarrow> Inl dangling
          | Some al \<Rightarrow>
             if \<not> NDEBUG e \<and> \<not> (offset al > 0) then Inl assert_failed
             else (case deref_memory s (mem al) of
                None \<Rightarrow> Inl dangling
              | Some base \<Rightarrow>
                 let hst = host base; device = \<not> host base; n = bytes base
                 in if hst \<and> \<not> gpu then Inr (ptr, s)
                    else if n = 0 then Inl (mfem_error ''PtrAlias bytes==0'')
                    else (case ensure_d_ptr_at e (mem al) base n s of (d, s1) \<Rightarrow>
                      if d = 0 then Inl (mfem_error ''PtrAlias !base->d_ptr'')
                      else let a_ptr = ptr_add d (offset al)
                        in if device \<and> gpu then Inr (a_ptr, s1)
                           else if h_ptr base = 0
                           then Inl (mfem_error ''PtrAlias !base->h_ptr'')
                           else if device \<and> \<not> gpu
                           then Inr (ptr, write_memory (mem al) (\<lambda>m. m\<lparr>host := True\<rparr>)
                                     (log_event (CuMemcpyDtoH (h_ptr base) d n) s1))
                           else if \<not> (hst \<and> gpu)
                           then Inl (mfem_error ''PtrAlias !(host && gpu)'')
                           else Inr (a_ptr, write_memory (mem al) (\<lambda>m. m\<lparr>host := False\<rparr>)
                                     (log_event (CuMemcpyHtoD d (h_ptr base) n) s1))))))"

definition Ptr :: "env \<Rightarrow> mm_state \<Rightarrow> addr \<Rightarrow> error + (addr \<times> mm_state)" where
  "Ptr e s ptr =
     (case MmDeviceIniFilter e of
        Inl err \<Rightarrow> Inl err
      | Inr True \<Rightarrow> Inr (ptr, s)
      | Inr False \<Rightarrow>
          if Known (mm_maps s) ptr then PtrKnown e s ptr
          else (case Alias e s ptr of
                  Inl err \<Rightarrow> Inl err
                | Inr (True, s') \<Rightarrow> PtrAlias e s' ptr
                | Inr (False, s') \<Rightarrow>
                    if UsingDevice e
                    then Inl (mfem_error ''Trying to use unknown pointer on the DEVICE!'')
                    else Inr (ptr, s')))"

subsection \<open>Push and Pull\<close>

definition PushKnown :: "env \<Rightarrow> mm_state \<Rightarrow> addr \<Rightarrow> nat \<Rightarrow> error + mm_state" where
  "PushKnown e s ptr n =
     (case lookup_memory s ptr of
        None \<Rightarrow> Inl out_of_range
      | Some base \<Rightarrow>
          (case ensure_d_ptr e ptr base (bytes base) s of (d, s1) \<Rightarrow>
             Inr (log_event (CuMemcpyHtoD d ptr (if n = 0 then bytes base else n)) s1)))"

definition PushAlias :: "mm_state \<Rightarrow> addr \<Rightarrow> nat \<Rightarrow> error + mm_state" where
  "PushAlias s ptr n =
     (case lookup_alias s ptr of
        None \<Rightarrow> Inl out_of_range
      | Some a \<Rightarrow>
         (case alias_store s a of
            None \<Rightarrow> Inl dangling
          | Some al \<Rightarrow>
             (case deref_memory s (mem al) of
                None \<Rightarrow> Inl dangling
              | Some base \<Rightarrow>
                  Inr (log_event
                        (CuMemcpyHtoD (ptr_add (d_ptr base) (offset al)) ptr n) s))))"

definition Push :: "env \<Rightarrow> mm_state \<Rightarrow> addr \<Rightarrow> nat \<Rightarrow> error + mm_state" where
  "Push e s ptr n =
     (if n = 0 then Inl (mfem_error ''Push bytes==0'')
      else case MmDeviceIniFilter e of
        Inl err \<Rightarrow> Inl err
      | Inr True \<Rightarrow> Inr s
      | Inr False \<Rightarrow>
          if Known (mm_maps s) ptr then PushKnown e s ptr n
          else (case Alias e s ptr of
                  Inl err \<Rightarrow> Inl err
                | Inr (True, s') \<Rightarrow> PushAlias s' ptr n
                | Inr (False, s') \<Rightarrow>
                    if UsingDevice e
                    then Inl (mfem_error ''Unknown pointer to push to!'')
                    else Inr s'))"

definition PullKnown :: "env \<Rightarrow> mm_state \<Rightarrow> addr \<Rightarrow> nat \<Rightarrow> error + mm_state" where
  "PullKnown e s ptr n =
     (case lookup_memory s ptr of
        None \<Rightarrow> Inl out_of_range
      | Some base \<Rightarrow>
          if host base then Inr s
          else if \<not> NDEBUG e \<and> h_ptr base = 0 then Inl assert_failed
          else if \<not> NDEBUG e \<and> d_ptr base = 0 then Inl assert_failed
          else Inr (log_event
                 (CuMemcpyDtoH (h_ptr base) (d_ptr base) (if n = 0 then bytes base else n)) s))"

definition PullAlias :: "mm_state \<Rightarrow> addr \<Rightarrow> nat \<Rightarrow> error + mm_state" where
  "PullAlias s ptr n =
     (case lookup_alias s ptr of
        None \<Rightarrow> Inl out_of_range
      | Some a \<Rightarrow>
         (case alias_store s a of
            None \<Rightarrow> Inl dangling
          | Some al \<Rightarrow>
             (case deref_memory s (mem al) of
                None \<Rightarrow> Inl dangling
              | Some base \<Rightarrow>
                  if host base then Inr s
                  else if ptr = 0 then Inl (mfem_error ''PullAlias !ptr'')
                  else if d_ptr base = 0
                  then Inl (mfem_error ''PullAlias !alias->mem->d_ptr'')
                  else Inr (log_event
                        (CuMemcpyDtoH ptr (ptr_add (d_ptr base) (offset al)) n) s))))"

definition Pull :: "env \<Rightarrow> mm_state \<Rightarrow> addr \<Rightarrow> nat \<Rightarrow> error + mm_state" where
  "Pull e s ptr n =
     (case MmDeviceIniFilter e of
        Inl err \<Rightarrow> Inl err
      | Inr True \<Rightarrow> Inr s
      | Inr False \<Rightarrow>
          if Known (mm_maps s) ptr then PullKnown e s ptr n
          else (case Alias e s ptr of
                  Inl err \<Rightarrow> Inl err
                | Inr (True, s') \<Rightarrow> PullAlias s' ptr n
                | Inr (False, s') \<Rightarrow>
                    if UsingDevice e
                    then Inl (mfem_error ''Unknown pointer to pull from!'')
                    else Inr s'))"

subsection \<open>memcpy\<close>

text \<open>
  Modelled from the spec: the static wrapper \<^verbatim>\<open>mm::ptr\<close> is declared in a header that
  is not under src/. The spec: \<^verbatim>\<open>Memcpy\<close> resolves both \<open>dst\<close> and \<open>src\<close> via
  ResolvePointer, which is \<open>Ptr\<close>. Both calls are made before the size is looked at.
\<close>

definition mm_memcpy ::
  "env \<Rightarrow> mm_state \<Rightarrow> addr \<Rightarrow> addr \<Rightarrow> nat \<Rightarrow> bool \<Rightarrow> error + (addr \<times> mm_state)" where
  "mm_memcpy e s dst src n async =
     (case Ptr e s dst of
        Inl err \<Rightarrow> Inl err
      | Inr (d_dst, s1) \<Rightarrow>
         (case Ptr e s1 src of
            Inl err \<Rightarrow> Inl err
          | Inr (d_src, s2) \<Rightarrow>
              let hst = UsingHost e
              in if n = 0 then Inr (dst, s2)
                 else if hst then Inr (dst, log_event (std_memcpy dst src n) s2)
                 else if \<not> async
                 then Inr (dtod_ret e False d_dst d_src n,
                           log_event (CuMemcpyDtoD d_dst d_src n) s2)
                 else Inr (dtod_ret e True d_dst d_src n,
                           log_event (CuMemcpyDtoDAsync d_dst d_src n) s2)))"

subsection \<open>Copies among the backend calls\<close>

text \<open>Every backend call of this file but the allocation moves data.\<close>

fun is_copy :: "event \<Rightarrow> bool" where
  "is_copy (CuMemAlloc d n) = False"
| "is_copy ev = True"

subsection \<open>The guards of the four-way decision\<close>

text \<open>
  \<^verbatim>\<open>PtrKnown\<close> and \<^verbatim>\<open>PtrAlias\<close> return at once for a HostValid record when the device is
  not in use. Otherwise they stop on a record of size 0, on a mirror that is still null
  after the allocation, and, unless the record is DeviceValid and the device in use, on
  a null host pointer \<open>hp\<close> (\<^verbatim>\<open>ptr\<close> in \<^verbatim>\<open>PtrKnown\<close>, \<^verbatim>\<open>base->h_ptr\<close> in \<^verbatim>\<open>PtrAlias\<close>).
  \<open>guards_pass\<close> says that none of these stops is taken.
\<close>

definition guards_pass :: "env \<Rightarrow> mm_state \<Rightarrow> memory \<Rightarrow> addr \<Rightarrow> bool" where
  "guards_pass e s m hp =
     (if host m \<and> \<not> UsingDevice e then True
      else bytes m \<noteq> 0 \<and>
           (if d_ptr m = 0 then cu_alloc e (events s) (bytes m) \<noteq> 0 else True) \<and>
           (if \<not> host m \<and> UsingDevice e then True else hp \<noteq> 0))"

subsection \<open>Pointers that can be followed\<close>

text \<open>
  What the functions that follow the stored pointers rely on: \<open>memories\<close> has distinct
  keys, every cached alias is an object made by \<^verbatim>\<open>new mm::alias\<close>, and its owner pointer
  is the address of a live node or of an erased one.
\<close>

definition pointers_ok :: "mm_state \<Rightarrow> bool" where
  "pointers_ok s =
     (distinct (map fst (memories (mm_maps s))) \<and>
      list_all (\<lambda>(p, a). case alias_store s a of
                            None \<Rightarrow> False
                          | Some al \<Rightarrow> deref_memory s (mem al) \<noteq> None)
        (ledger.aliases (mm_maps s)))"

subsection \<open>Configurations and states used in the examples\<close>

text \<open>
  A release build with the manager on and the device enabled; \<open>env_active\<close> runs on
  the device, \<open>env_idle\<close> does not. \<open>env_off\<close> is a build without the manager,
  \<open>env_disabled\<close> has the device disabled, \<open>env_occa\<close> uses OCCA, \<open>env_debug\<close> is
  \<open>env_active\<close> built with \<^verbatim>\<open>MFEM_DEBUG\<close>, \<open>env_noalloc\<close> is \<open>env_active\<close> with a
  \<^verbatim>\<open>CuMemAlloc\<close> that leaves the pointer null. The first node of \<open>memories\<close> is
  allocated at 9000, the first alias object at 5000, the first mirror at 7000.
\<close>

definition env_active :: env where
  "env_active =
     \<lparr>UsingMM = True, DeviceDisabled = False, DeviceHasBeenEnabled = True,
      UsingOcca = False, UsingDevice = True, UsingHost = False,
      MFEM_DEBUG = False, MFEM_DEBUG_MM = False, NDEBUG = True,
      new_node = (\<lambda>live. 9000 + 100 * length live),
      new_alias = (\<lambda>st. if st 5000 = None then 5000 else 5016),
      cu_alloc = (\<lambda>evs n. 7000 + 1000 * length evs),
      dtod_ret = (\<lambda>async d s n. d)\<rparr>"

definition env_idle :: env where
  "env_idle = env_active\<lparr>UsingDevice := False, UsingHost := True\<rparr>"

definition env_off :: env where
  "env_off = env_active\<lparr>UsingMM := False\<rparr>"

definition env_disabled :: env where
  "env_disabled = env_idle\<lparr>DeviceDisabled := True\<rparr>"

definition env_occa :: env where
  "env_occa = env_idle\<lparr>UsingOcca := True\<rparr>"

definition env_debug :: env where
  "env_debug = env_active\<lparr>MFEM_DEBUG := True, MFEM_DEBUG_MM := True, NDEBUG := False\<rparr>"

definition env_noalloc :: env where
  "env_noalloc = env_active\<lparr>cu_alloc := (\<lambda>evs n. 0)\<rparr>"

definition s_empty :: mm_state where
  "s_empty =
     \<lparr>mm_maps = \<lparr>memories = [], aliases = []\<rparr>, freed = Map.empty,
      alias_store = Map.empty, events = []\<rparr>"

text \<open>After \<^verbatim>\<open>Insert(100, 64)\<close>: one buffer, valid on the host, no mirror.\<close>

definition s_host :: mm_state where
  "s_host =
     \<lparr>mm_maps = \<lparr>memories =
         [(100, 9000, \<lparr>bytes = 64, h_ptr = 100, d_ptr = 0, aliases = [], host = True\<rparr>)],
         aliases = []\<rparr>,
      freed = Map.empty, alias_store = Map.empty, events = []\<rparr>"

text \<open>The same buffer after a push: the mirror is at 7000 and the device copy is the valid one.\<close>

definition s_dev :: mm_state where
  "s_dev =
     \<lparr>mm_maps = \<lparr>memories =
         [(100, 9000, \<lparr>bytes = 64, h_ptr = 100, d_ptr = 7000, aliases = [], host = False\<rparr>)],
         aliases = []\<rparr>,
      freed = Map.empty, alias_store = Map.empty,
      events = [CuMemAlloc 7000 64, CuMemcpyHtoD 7000 100 64]\<rparr>"

text \<open>After \<^verbatim>\<open>Insert(100, 64)\<close> and a first look at the interior pointer 140.\<close>

definition s_alias :: mm_state where
  "s_alias =
     \<lparr>mm_maps = \<lparr>memories =
         [(100, 9000, \<lparr>bytes = 64, h_ptr = 100, d_ptr = 0, aliases = [5000], host = True\<rparr>)],
         aliases = [(140, 5000)]\<rparr>,
      freed = Map.empty,
      alias_store = [5000 \<mapsto> \<lparr>mem = 9000, offset = 40\<rparr>], events = []\<rparr>"

text \<open>\<open>s_alias\<close> after the buffer was pushed to the device.\<close>

definition s_alias_dev :: mm_state where
  "s_alias_dev =
     \<lparr>mm_maps = \<lparr>memories =
         [(100, 9000, \<lparr>bytes = 64, h_ptr = 100, d_ptr = 7000, aliases = [5000], host = False\<rparr>)],
         aliases = [(140, 5000)]\<rparr>,
      freed = Map.empty,
      alias_store = [5000 \<mapsto> \<lparr>mem = 9000, offset = 40\<rparr>],
      events = [CuMemAlloc 7000 64, CuMemcpyHtoD 7000 100 64]\<rparr>"

text \<open>
  \<open>s_alias\<close> after \<^verbatim>\<open>Erase(100)\<close>, as the code leaves it: the buffer is gone, the
  cache still has the entry for 140, and the freed node at 9000 holds the old record.
\<close>

definition s_erased :: mm_state where
  "s_erased =
     \<lparr>mm_maps = \<lparr>memories = [], aliases = [(140, 5000)]\<rparr>,
      freed = [9000 \<mapsto> \<lparr>bytes = 64, h_ptr = 100, d_ptr = 0, aliases = [], host = True\<rparr>],
      alias_store = [5000 \<mapsto> \<lparr>mem = 9000, offset = 40\<rparr>], events = []\<rparr>"

text \<open>\<open>s_alias_dev\<close> after \<^verbatim>\<open>Erase(100)\<close>.\<close>

definition s_erased_dev :: mm_state where
  "s_erased_dev =
     \<lparr>mm_maps = \<lparr>memories = [], aliases = [(140, 5000)]\<rparr>,
      freed = [9000 \<mapsto> \<lparr>bytes = 64, h_ptr = 100, d_ptr = 7000, aliases = [], host = False\<rparr>],
      alias_store = [5000 \<mapsto> \<lparr>mem = 9000, offset = 40\<rparr>],
      events = [CuMemAlloc 7000 64, CuMemcpyHtoD 7000 100 64]\<rparr>"

text \<open>
  \<open>s_erased\<close> after \<^verbatim>\<open>Insert(120, 64)\<close>, and after \<^verbatim>\<open>Insert(140, 8)\<close>: the new node
  takes the storage of the freed one.
\<close>

definition s_reused :: mm_state where
  "s_reused =
     \<lparr>mm_maps = \<lparr>memories =
         [(120, 9000, \<lparr>bytes = 64, h_ptr = 120, d_ptr = 0, aliases = [], host = True\<rparr>)],
         aliases = [(140, 5000)]\<rparr>,
      freed = Map.empty,
      alias_store = [5000 \<mapsto> \<lparr>mem = 9000, offset = 40\<rparr>], events = []\<rparr>"

text \<open>\<open>s_reused\<close> after the new buffer was pushed to the device.\<close>

definition s_reused_dev :: mm_state where
  "s_reused_dev =
     \<lparr>mm_maps = \<lparr>memories =
         [(120, 9000, \<lparr>bytes = 64, h_ptr = 120, d_ptr = 7000, aliases = [], host = False\<rparr>)],
         aliases = [(140, 5000)]\<rparr>,
      freed = Map.empty,
      alias_store = [5000 \<mapsto> \<lparr>mem = 9000, offset = 40\<rparr>],
      events = [CuMemAlloc 7000 64, CuMemcpyHtoD 7000 120 64]\<rparr>"

definition s_clash :: mm_state where
  "s_clash =
     \<lparr>mm_maps = \<lparr>memories =
         [(140, 9000, \<lparr>bytes = 8, h_ptr = 140, d_ptr = 0, aliases = [], host = True\<rparr>)],
         aliases = [(140, 5000)]\<rparr>,
      freed = Map.empty,
      alias_store = [5000 \<mapsto> \<lparr>mem = 9000, offset = 40\<rparr>], events = []\<rparr>"

text \<open>A buffer registered with size 0, and one registered at the null pointer.\<close>

definition s_zero :: mm_state where
  "s_zero =
     \<lparr>mm_maps = \<lparr>memories =
         [(100, 9000, \<lparr>bytes = 0, h_ptr = 100, d_ptr = 0, aliases = [], host = True\<rparr>)],
         aliases = []\<rparr>,
      freed = Map.empty, alias_store = Map.empty, events = []\<rparr>"

definition s_null :: mm_state where
  "s_null =
     \<lparr>mm_maps = \<lparr>memories =
         [(0, 9000, \<lparr>bytes = 64, h_ptr = 0, d_ptr = 0, aliases = [], host = True\<rparr>)],
         aliases = []\<rparr>,
      freed = Map.empty, alias_store = Map.empty, events = []\<rparr>"

section \<open>Properties\<close>

subsection \<open>The small steps\<close>

lemma lookup_memory_update [simp]:
  "lookup_memory (update_memory b f s) q =
     (if q = b then map_option f (lookup_memory s b) else lookup_memory s q)"
  by (simp add: lookup_memory_def update_memory_def map_of_map_entry split: option.split)

lemma lookup_memory_log [simp]: "lookup_memory (log_event ev s) q = lookup_memory s q"
  by (simp add: lookup_memory_def log_event_def)

lemma lookup_alias_update [simp]: "lookup_alias (update_memory b f s) p = lookup_alias s p"
  by (simp add: lookup_alias_def update_memory_def)

lemma lookup_alias_log [simp]: "lookup_alias (log_event ev s) p = lookup_alias s p"
  by (simp add: lookup_alias_def log_event_def)

lemma alias_store_update [simp]: "alias_store (update_memory b f s) = alias_store s"
  by (simp add: update_memory_def)

lemma alias_store_log [simp]: "alias_store (log_event ev s) = alias_store s"
  by (simp add: log_event_def)

lemma events_update [simp]: "events (update_memory b f s) = events s"
  by (simp add: update_memory_def)

lemma events_log [simp]: "events (log_event ev s) = events s @ [ev]"
  by (simp add: log_event_def)

lemma Known_lookup: "Known (mm_maps s) q = (lookup_memory s q \<noteq> None)"
  by (simp add: Known_def lookup_memory_def)

lemma Known_update [simp]: "Known (mm_maps (update_memory b f s)) q = Known (mm_maps s) q"
  by (simp add: Known_lookup)

lemma Known_log [simp]: "Known (mm_maps (log_event ev s)) q = Known (mm_maps s) q"
  by (simp add: Known_lookup)

lemma aliases_update [simp]:
  "ledger.aliases (mm_maps (update_memory b f s)) = ledger.aliases (mm_maps s)"
  by (simp add: update_memory_def)

lemma aliases_log [simp]:
  "ledger.aliases (mm_maps (log_event ev s)) = ledger.aliases (mm_maps s)"
  by (simp add: log_event_def)

lemma node_record_map_node:
  "node_record (map_node nd f xs) nd' =
     (if nd' = nd then map_option f (node_record xs nd) else node_record xs nd')"
  by (induction xs) auto

lemma keys_map_node: "map fst (map_node nd f xs) = map fst xs"
  by (induction xs) auto

lemma map_of_map_node_None: "(map_of (map_node nd f xs) k = None) = (map_of xs k = None)"
  using keys_map_node [of nd f xs] by (simp add: map_of_eq_None_iff flip: set_map)

lemma deref_write [simp]:
  "deref_memory (write_memory nd f s) nd = map_option f (deref_memory s nd)"
  by (simp add: deref_memory_def write_memory_def node_record_map_node split: option.split)

lemma deref_log [simp]: "deref_memory (log_event ev s) nd = deref_memory s nd"
  by (simp add: deref_memory_def log_event_def split: option.split)

lemma lookup_alias_write [simp]: "lookup_alias (write_memory nd f s) p = lookup_alias s p"
  by (simp add: lookup_alias_def write_memory_def split: option.split)

lemma alias_store_write [simp]: "alias_store (write_memory nd f s) = alias_store s"
  by (simp add: write_memory_def split: option.split)

lemma events_write [simp]: "events (write_memory nd f s) = events s"
  by (simp add: write_memory_def split: option.split)

lemma Known_write [simp]: "Known (mm_maps (write_memory nd f s)) q = Known (mm_maps s) q"
  using map_of_map_node_None [of nd f "memories (mm_maps s)" q]
  by (auto simp: Known_def write_memory_def split: option.split)

lemmas env_defs = env_active_def env_idle_def env_off_def env_disabled_def env_occa_def
  env_debug_def env_noalloc_def

lemmas state_defs = s_empty_def s_host_def s_dev_def s_alias_def s_alias_dev_def
  s_erased_def s_erased_dev_def s_reused_def s_reused_dev_def s_clash_def s_zero_def s_null_def

lemmas step_defs = lookup_memory_def lookup_alias_def update_memory_def log_event_def
  ptr_add_def alloc_d_ptr_def ensure_d_ptr_def new_memory_def deref_memory_def
  write_memory_def alloc_d_ptr_at_def ensure_d_ptr_at_def

lemmas op_defs = Known_def IsAlias_def offset_taken_def InsertAlias_def Alias_def Insert_def
  Erase_def MmDeviceIniFilter_def PtrKnown_def PtrAlias_def Ptr_def PushKnown_def
  PushAlias_def Push_def PullKnown_def PullAlias_def Pull_def mm_memcpy_def

subsection \<open>Insert and Erase with the manager off\<close>

text \<open>
  C10. When \<^verbatim>\<open>Device::UsingMM()\<close> is false, \<open>Insert\<close> and \<open>Erase\<close> return the pointer
  and the state they were given: nothing is registered or removed, and neither the
  duplicate-registration error nor the unknown-pointer error is raised.
\<close>

theorem C10_manager_off:
  "\<not> UsingMM e \<Longrightarrow> Insert e s ptr n = Inr (ptr, s) \<and> Erase e s ptr = Inr (ptr, s)"
  by (simp add: Insert_def Erase_def)

theorem C10_manager_off_witness:
  "\<not> UsingMM env_off \<and>
   Known (mm_maps s_host) 100 \<and> Insert env_off s_host 100 64 = Inr (100, s_host) \<and>
   \<not> Known (mm_maps s_host) 300 \<and> Erase env_off s_host 300 = Inr (300, s_host)"
  using C10_manager_off [of env_off s_host 100 64] C10_manager_off [of env_off s_host 300 0]
  by (simp add: env_defs s_host_def Known_def)

subsection \<open>Erase and the device mirror\<close>

lemma delete_map_entry_same:
  "AList.delete k (AList.map_entry k f xs) = AList.delete k xs"
  by (induction xs) (auto simp: AList.delete_eq)

lemma Erase_registered:
  assumes "UsingMM e" and "map_of (memories (mm_maps s)) ptr = Some (nd, m)"
  shows "Erase e s ptr =
    Inr (ptr, s\<lparr>mm_maps :=
      \<lparr>memories = AList.delete ptr (memories (mm_maps s)),
       aliases = fold AList.delete (memory.aliases m) (ledger.aliases (mm_maps s))\<rparr>,
      freed := (freed s)(nd \<mapsto> m\<lparr>memory.aliases := []\<rparr>)\<rparr>)"
  using assms
  by (simp add: Erase_def Known_def update_memory_def delete_map_entry_same)


text \<open>
  C3 (amended). For a registered pointer, with the manager on, \<open>Erase\<close> returns the
  pointer, the record is gone, every other record is as before, and no backend call is
  issued: the list of backend calls is unchanged, whether or not the record had a
  device mirror.
\<close>

theorem C3_erase_issues_no_backend_call:
  assumes "UsingMM e" and "lookup_memory s ptr = Some m"
  shows "\<exists>s'. Erase e s ptr = Inr (ptr, s') \<and> \<not> Known (mm_maps s') ptr \<and>
              events s' = events s \<and>
              (\<forall>q. q \<noteq> ptr \<longrightarrow> lookup_memory s' q = lookup_memory s q)"
proof -
  from assms(2) obtain nd where "map_of (memories (mm_maps s)) ptr = Some (nd, m)"
    by (auto simp: lookup_memory_def)
  from Erase_registered [OF assms(1) this] show ?thesis
    by (simp add: Known_def lookup_memory_def AList.delete_conv')
qed

theorem C3_erase_issues_no_backend_call_witness:
  "UsingMM env_active \<and>
   lookup_memory s_dev 100 =
     Some \<lparr>bytes = 64, h_ptr = 100, d_ptr = 7000, aliases = [], host = False\<rparr> \<and>
   (\<exists>s'. Erase env_active s_dev 100 = Inr (100, s') \<and> \<not> Known (mm_maps s') 100 \<and>
         events s' = events s_dev \<and>
         (\<forall>q. q \<noteq> 100 \<longrightarrow> lookup_memory s' q = lookup_memory s_dev q))"
  using C3_erase_issues_no_backend_call [of env_active s_dev 100
      "\<lparr>bytes = 64, h_ptr = 100, d_ptr = 7000, aliases = [], host = False\<rparr>"]
  by (simp add: env_defs s_dev_def lookup_memory_def)

theorem C3_counterexample:
  "lookup_memory s_dev 100 =
     Some \<lparr>bytes = 64, h_ptr = 100, d_ptr = 7000, aliases = [], host = False\<rparr> \<and>
   events s_dev = [CuMemAlloc 7000 64, CuMemcpyHtoD 7000 100 64] \<and>
   Erase env_active s_dev 100 =
     Inr (100, \<lparr>mm_maps = \<lparr>memories = [], aliases = []\<rparr>,
                 freed = [9000 \<mapsto> \<lparr>bytes = 64, h_ptr = 100, d_ptr = 7000, aliases = [],
                                     host = False\<rparr>],
                 alias_store = Map.empty,
                 events = [CuMemAlloc 7000 64, CuMemcpyHtoD 7000 100 64]\<rparr>)"
  by (simp add: env_defs state_defs step_defs op_defs)

subsection \<open>Pull\<close>







subsection \<open>Ptr on a pointer the ledger does not know\<close>

lemma Alias_False_unchanged: "Alias e s ptr = Inr (False, s') \<Longrightarrow> s' = s"
  by (auto simp: Alias_def split: if_splits sum.splits prod.splits)

text \<open>
  C6 (amended). Let \<open>ptr\<close> be no registered base and let \<open>Alias\<close> answer false for it.
  Then \<open>Alias\<close> has left the state as it was, and \<open>Ptr\<close> does this: it stops with
  the error of the mode filter when OCCA is in use; it returns \<open>ptr\<close> in pass-through
  mode; otherwise it stops with a fatal error exactly when the device is in use, and
  returns \<open>ptr\<close> when it is not. Whenever it returns, the state is unchanged.
\<close>

theorem C6_unknown_pointer:
  assumes "\<not> Known (mm_maps s) ptr" and "Alias e s ptr = Inr (False, s')"
  shows "s' = s \<and>
    Ptr e s ptr =
      (case MmDeviceIniFilter e of
         Inl err \<Rightarrow> Inl err
       | Inr True \<Rightarrow> Inr (ptr, s)
       | Inr False \<Rightarrow>
           if UsingDevice e
           then Inl (mfem_error ''Trying to use unknown pointer on the DEVICE!'')
           else Inr (ptr, s))"
  using assms Alias_False_unchanged [OF assms(2)]
  by (simp add: Ptr_def split: sum.splits bool.splits)

theorem C6_unknown_pointer_witness:
  "\<not> Known (mm_maps s_host) 300 \<and> Alias env_active s_host 300 = Inr (False, s_host) \<and>
   Ptr env_active s_host 300 =
     Inl (mfem_error ''Trying to use unknown pointer on the DEVICE!'') \<and>
   Alias env_idle s_host 300 = Inr (False, s_host) \<and>
   Ptr env_idle s_host 300 = Inr (300, s_host)"
proof -
  have k: "\<not> Known (mm_maps s_host) 300"
    by (simp add: s_host_def Known_def)
  have a: "Alias env_active s_host 300 = Inr (False, s_host)"
    by (simp add: env_defs s_host_def step_defs Alias_def IsAlias_def)
  have b: "Alias env_idle s_host 300 = Inr (False, s_host)"
    by (simp add: env_defs s_host_def step_defs Alias_def IsAlias_def)
  show ?thesis
    using k a b C6_unknown_pointer [OF k a] C6_unknown_pointer [OF k b]
    by (simp add: env_defs MmDeviceIniFilter_def)
qed

theorem C6_counterexample:
  "\<not> UsingDevice env_occa \<and> \<not> Known (mm_maps s_host) 300 \<and>
   Alias env_occa s_host 300 = Inr (False, s_host) \<and>
   Ptr env_occa s_host 300 = Inl (mfem_error ''Device::UsingOcca()'')"
  by (simp add: env_defs state_defs step_defs op_defs)

subsection \<open>Push\<close>

text \<open>
  C4 (amended). With the manager on and OCCA not in use, \<open>Push\<close> of a positive number
  of bytes on a registered pointer allocates the mirror (of the registered size) when
  the record has none, then issues one host-to-device copy of the requested size. The
  record keeps its \<open>host\<close> flag: \<open>Push\<close> does not make it DeviceValid. In
  pass-through mode \<open>Push\<close> does nothing, and where the mode filter stops on OCCA
  \<open>Push\<close> stops with it.
\<close>

theorem C4_push_copies_and_keeps_state:
  assumes "lookup_memory s ptr = Some m" and "0 < n"
  shows "(MmDeviceIniFilter e = Inr False \<longrightarrow>
           (\<exists>s' d. Push e s ptr n = Inr s' \<and>
              d = (if d_ptr m = 0 then cu_alloc e (events s) (bytes m) else d_ptr m) \<and>
              events s' = events s @
                 (if d_ptr m = 0 then [CuMemAlloc d (bytes m)] else []) @
                 [CuMemcpyHtoD d ptr n] \<and>
              lookup_memory s' ptr = Some (m\<lparr>d_ptr := d\<rparr>) \<and>
              (\<forall>q. q \<noteq> ptr \<longrightarrow> lookup_memory s' q = lookup_memory s q))) \<and>
         (MmDeviceIniFilter e = Inr True \<longrightarrow> Push e s ptr n = Inr s) \<and>
         (MmDeviceIniFilter e = Inl err \<longrightarrow> Push e s ptr n = Inl err)"
  using assms
  by (auto simp: Push_def PushKnown_def Known_lookup ensure_d_ptr_def alloc_d_ptr_def Let_def)

theorem C4_push_copies_and_keeps_state_witness:
  "lookup_memory s_host 100 =
     Some \<lparr>bytes = 64, h_ptr = 100, d_ptr = 0, aliases = [], host = True\<rparr> \<and>
   MmDeviceIniFilter env_active = Inr False \<and>
   (\<exists>s'. Push env_active s_host 100 16 = Inr s' \<and>
      events s' = [CuMemAlloc 7000 64, CuMemcpyHtoD 7000 100 16] \<and>
      lookup_memory s' 100 =
        Some \<lparr>bytes = 64, h_ptr = 100, d_ptr = 7000, aliases = [], host = True\<rparr>) \<and>
   MmDeviceIniFilter env_off = Inr True \<and>
   Push env_off s_host 100 16 = Inr s_host"
  using C4_push_copies_and_keeps_state [of s_host 100
      "\<lparr>bytes = 64, h_ptr = 100, d_ptr = 0, aliases = [], host = True\<rparr>" 16 env_active
      out_of_range]
    C4_push_copies_and_keeps_state [of s_host 100
      "\<lparr>bytes = 64, h_ptr = 100, d_ptr = 0, aliases = [], host = True\<rparr>" 16 env_off
      out_of_range]
  by (auto simp add: env_defs s_host_def lookup_memory_def MmDeviceIniFilter_def)

theorem C4_counterexample:
  "Push env_active s_host 100 64 =
     Inr \<lparr>mm_maps = \<lparr>memories =
             [(100, 9000,
               \<lparr>bytes = 64, h_ptr = 100, d_ptr = 7000, aliases = [], host = True\<rparr>)],
             aliases = []\<rparr>,
          freed = Map.empty, alias_store = Map.empty,
          events = [CuMemAlloc 7000 64, CuMemcpyHtoD 7000 100 64]\<rparr> \<and>
   Push env_disabled s_host 100 64 = Inr s_host"
  by (simp add: env_defs state_defs step_defs op_defs)

subsection \<open>Ptr twice\<close>

lemma ensure_d_ptr_at_props:
  assumes "ensure_d_ptr_at e nd m n s = (d, s')" and "deref_memory s nd = Some m"
  shows "deref_memory s' nd = Some (m\<lparr>d_ptr := d\<rparr>)"
    and "\<And>q. lookup_alias s' q = lookup_alias s q"
    and "alias_store s' = alias_store s"
    and "\<And>q. Known (mm_maps s') q = Known (mm_maps s) q"
  using assms
  by (auto simp: ensure_d_ptr_at_def alloc_d_ptr_at_def Let_def split: if_splits)

lemma ensure_d_ptr_at_events:
  assumes "ensure_d_ptr_at e nd m n s = (d, s')"
  shows "events s' = events s @ (if d_ptr m = 0 then [CuMemAlloc d n] else [])"
    and "d = (if d_ptr m = 0 then cu_alloc e (events s) n else d_ptr m)"
  using assms
  by (auto simp: ensure_d_ptr_at_def alloc_d_ptr_at_def Let_def split: if_splits)

lemma ensure_d_ptr_at_present:
  "d_ptr m \<noteq> 0 \<Longrightarrow> ensure_d_ptr_at e nd m n s = (d_ptr m, s)"
  by (simp add: ensure_d_ptr_at_def)

lemma PtrAlias_lookups:
  assumes "PtrAlias e s ptr = Inr (r, s1)"
  obtains a al base where "lookup_alias s ptr = Some a" and "alias_store s a = Some al"
    and "deref_memory s (mem al) = Some base" and "NDEBUG e \<or> 0 < offset al"
proof (cases "lookup_alias s ptr")
  case None
  with assms show ?thesis by (simp add: PtrAlias_def)
next
  case a: (Some a)
  show ?thesis
  proof (cases "alias_store s a")
    case None
    with assms a show ?thesis by (simp add: PtrAlias_def)
  next
    case al: (Some al)
    show ?thesis
    proof (cases "NDEBUG e \<or> 0 < offset al")
      case False
      with assms a al show ?thesis by (simp add: PtrAlias_def)
    next
      case ok: True
      show ?thesis
      proof (cases "deref_memory s (mem al)")
        case None
        with assms a al ok show ?thesis by (auto simp add: PtrAlias_def)
      next
        case (Some base)
        with a al ok that show ?thesis by blast
      qed
    qed
  qed
qed

lemma PtrAlias_resolved:
  assumes "lookup_alias s ptr = Some a" and "alias_store s a = Some al"
    and "deref_memory s (mem al) = Some base" and "NDEBUG e \<or> 0 < offset al"
  shows "PtrAlias e s ptr =
    (if host base \<and> \<not> UsingDevice e then Inr (ptr, s)
     else if bytes base = 0 then Inl (mfem_error ''PtrAlias bytes==0'')
     else (case ensure_d_ptr_at e (mem al) base (bytes base) s of (d, s1) \<Rightarrow>
       if d = 0 then Inl (mfem_error ''PtrAlias !base->d_ptr'')
       else if \<not> host base \<and> UsingDevice e then Inr (ptr_add d (offset al), s1)
       else if h_ptr base = 0 then Inl (mfem_error ''PtrAlias !base->h_ptr'')
       else if \<not> host base \<and> \<not> UsingDevice e
       then Inr (ptr, write_memory (mem al) (\<lambda>m. m\<lparr>host := True\<rparr>)
                 (log_event (CuMemcpyDtoH (h_ptr base) d (bytes base)) s1))
       else if \<not> (host base \<and> UsingDevice e)
       then Inl (mfem_error ''PtrAlias !(host && gpu)'')
       else Inr (ptr_add d (offset al), write_memory (mem al) (\<lambda>m. m\<lparr>host := False\<rparr>)
                 (log_event (CuMemcpyHtoD d (h_ptr base) (bytes base)) s1))))"
  using assms by (cases "NDEBUG e") (simp_all add: PtrAlias_def Let_def split: prod.split)


lemma PtrAlias_cases:
  assumes "PtrAlias e s ptr = Inr (r, s1)"
    and "lookup_alias s ptr = Some a" and "alias_store s a = Some al"
    and "deref_memory s (mem al) = Some base"
  obtains
    (same) "host base" and "\<not> UsingDevice e" and "r = ptr" and "s1 = s"
  | (dev) d where "\<not> host base" and "UsingDevice e" and "bytes base \<noteq> 0" and "d \<noteq> 0"
      and "ensure_d_ptr_at e (mem al) base (bytes base) s = (d, s1)"
      and "r = ptr_add d (offset al)"
  | (pull) d s' where "\<not> host base" and "\<not> UsingDevice e" and "bytes base \<noteq> 0"
      and "d \<noteq> 0" and "ensure_d_ptr_at e (mem al) base (bytes base) s = (d, s')"
      and "r = ptr"
      and "s1 = write_memory (mem al) (\<lambda>m. m\<lparr>host := True\<rparr>)
                 (log_event (CuMemcpyDtoH (h_ptr base) d (bytes base)) s')"
  | (push) d s' where "host base" and "UsingDevice e" and "bytes base \<noteq> 0"
      and "d \<noteq> 0" and "ensure_d_ptr_at e (mem al) base (bytes base) s = (d, s')"
      and "r = ptr_add d (offset al)"
      and "s1 = write_memory (mem al) (\<lambda>m. m\<lparr>host := False\<rparr>)
                 (log_event (CuMemcpyHtoD d (h_ptr base) (bytes base)) s')"
proof -
  obtain d s' where en: "ensure_d_ptr_at e (mem al) base (bytes base) s = (d, s')"
    by (cases "ensure_d_ptr_at e (mem al) base (bytes base) s")
  have ok: "NDEBUG e \<or> 0 < offset al"
  proof (rule ccontr)
    assume "\<not> (NDEBUG e \<or> 0 < offset al)"
    with assms show False by (simp add: PtrAlias_def)
  qed
  note r = assms(1) [unfolded PtrAlias_resolved [OF assms(2-4) ok] en prod.case]
  show ?thesis
  proof (cases "host base")
    case h: True
    show ?thesis
    proof (cases "UsingDevice e")
      case True
      with r h have "bytes base \<noteq> 0 \<and> d \<noteq> 0 \<and> r = ptr_add d (offset al) \<and>
        s1 = write_memory (mem al) (\<lambda>m. m\<lparr>host := False\<rparr>)
                 (log_event (CuMemcpyHtoD d (h_ptr base) (bytes base)) s')"
        by (simp split: if_splits)
      with h True en show ?thesis by (intro push) simp_all
    next
      case False
      with r h have "r = ptr \<and> s1 = s" by simp
      with h False show ?thesis by (intro same) simp_all
    qed
  next
    case h: False
    show ?thesis
    proof (cases "UsingDevice e")
      case True
      with r h have "bytes base \<noteq> 0 \<and> d \<noteq> 0 \<and> r = ptr_add d (offset al) \<and> s1 = s'"
        by (simp split: if_splits)
      with h True en show ?thesis by (intro dev) simp_all
    next
      case False
      with r h have "bytes base \<noteq> 0 \<and> d \<noteq> 0 \<and> r = ptr \<and>
        s1 = write_memory (mem al) (\<lambda>m. m\<lparr>host := True\<rparr>)
                 (log_event (CuMemcpyDtoH (h_ptr base) d (bytes base)) s')"
        by (simp split: if_splits)
      with h False en show ?thesis by (intro pull) simp_all
    qed
  qed
qed

lemma PtrAlias_again:
  assumes "PtrAlias e s ptr = Inr (r, s1)"
  shows "PtrAlias e s1 ptr = Inr (r, s1) \<and> lookup_alias s1 ptr \<noteq> None \<and>
         Known (mm_maps s1) ptr = Known (mm_maps s) ptr"
proof -
  from assms obtain a al base where l: "lookup_alias s ptr = Some a"
    "alias_store s a = Some al" "deref_memory s (mem al) = Some base"
    "NDEBUG e \<or> 0 < offset al"
    by (rule PtrAlias_lookups)
  have settled: "PtrAlias e s1 ptr = Inr (r, s1)"
    if "lookup_alias s1 ptr = Some a" and "alias_store s1 a = Some al"
      and "deref_memory s1 (mem al) = Some base'"
      and "UsingDevice e \<Longrightarrow> \<not> host base' \<and> d_ptr base' \<noteq> 0 \<and> bytes base' \<noteq> 0 \<and>
             r = ptr_add (d_ptr base') (offset al)"
      and "\<not> UsingDevice e \<Longrightarrow> host base' \<and> r = ptr" for base'
  proof (cases "UsingDevice e")
    case True
    with that(4) show ?thesis
      by (simp add: PtrAlias_resolved [OF that(1,2,3) l(4)] ensure_d_ptr_at_present)
  next
    case False
    with that(5) show ?thesis
      by (simp add: PtrAlias_resolved [OF that(1,2,3) l(4)])
  qed
  from assms l(1-3) show ?thesis
  proof (cases rule: PtrAlias_cases)
    case same
    with assms l show ?thesis by simp
  next
    case (dev d)
    note p = ensure_d_ptr_at_props [OF dev(5) l(3)]
    have "PtrAlias e s1 ptr = Inr (r, s1)"
      using dev(1-4,6) l p(1,2,3) by (intro settled [of "base\<lparr>d_ptr := d\<rparr>"]) simp_all
    with l p show ?thesis by simp
  next
    case (pull d s')
    note p = ensure_d_ptr_at_props [OF pull(5) l(3)]
    have "PtrAlias e s1 ptr = Inr (r, s1)"
      using pull(1-4,6,7) l p(1,2,3)
      by (intro settled [of "base\<lparr>d_ptr := d, host := True\<rparr>"]) simp_all
    with l p pull(7) show ?thesis by simp
  next
    case (push d s')
    note p = ensure_d_ptr_at_props [OF push(5) l(3)]
    have "PtrAlias e s1 ptr = Inr (r, s1)"
      using push(1-4,6,7) l p(1,2,3)
      by (intro settled [of "base\<lparr>d_ptr := d, host := False\<rparr>"]) simp_all
    with l p push(7) show ?thesis by simp
  qed
qed

lemma PtrAlias_events:
  assumes "PtrAlias e s ptr = Inr (r, s1)"
  shows "\<exists>evs. events s1 = events s @ evs \<and> length (filter is_copy evs) \<le> 1"
proof -
  from assms obtain a al base where l: "lookup_alias s ptr = Some a"
    "alias_store s a = Some al" "deref_memory s (mem al) = Some base"
    "NDEBUG e \<or> 0 < offset al"
    by (rule PtrAlias_lookups)
  from assms l(1-3) show ?thesis
  proof (cases rule: PtrAlias_cases)
    case same
    then show ?thesis by simp
  next
    case (dev d)
    from ensure_d_ptr_at_events(1) [OF dev(5)] show ?thesis by simp
  next
    case (pull d s')
    from ensure_d_ptr_at_events(1) [OF pull(5)] pull(7) show ?thesis by simp
  next
    case (push d s')
    from ensure_d_ptr_at_events(1) [OF push(5)] push(7) show ?thesis by simp
  qed
qed

lemma PtrKnown_again:
  assumes "PtrKnown e s ptr = Inr (r, s1)"
  shows "PtrKnown e s1 ptr = Inr (r, s1) \<and> Known (mm_maps s1) ptr"
  using assms
  by (auto simp: PtrKnown_def ensure_d_ptr_def alloc_d_ptr_def Let_def Known_lookup
      split: option.splits if_splits)

lemma PtrKnown_events:
  assumes "PtrKnown e s ptr = Inr (r, s1)"
  shows "\<exists>evs. events s1 = events s @ evs \<and> length (filter is_copy evs) \<le> 1"
  using assms
  by (auto simp: PtrKnown_def ensure_d_ptr_def alloc_d_ptr_def Let_def
      split: option.splits if_splits)

lemma map_of_snoc:
  "map_of (xs @ [(k, v)]) k' =
     (case map_of xs k' of None \<Rightarrow> (if k' = k then Some v else None) | Some y \<Rightarrow> Some y)"
  by (simp add: map_add_def split: option.split)

lemma InsertAlias_frame:
  assumes "InsertAlias e s base ptr = Inr (p, s')"
  shows "events s' = events s \<and> Known (mm_maps s') q = Known (mm_maps s) q \<and>
         lookup_alias s' ptr \<noteq> None"
  using assms
  by (auto simp: InsertAlias_def Let_def Known_lookup lookup_alias_def lookup_memory_def
      update_memory_def map_of_map_entry map_of_snoc
      simp del: map_of_append
      split: option.splits if_splits)

lemma Alias_frame:
  assumes "Alias e s ptr = Inr (b, s')"
  shows "events s' = events s \<and> Known (mm_maps s') q = Known (mm_maps s) q \<and>
         (b \<longrightarrow> lookup_alias s' ptr \<noteq> None)"
  using assms InsertAlias_frame
  by (fastforce simp: Alias_def split: if_splits sum.splits prod.splits)

lemma Alias_cached: "lookup_alias s ptr \<noteq> None \<Longrightarrow> Alias e s ptr = Inr (True, s)"
  by (simp add: Alias_def)

lemma Ptr_again:
  assumes "Ptr e s ptr = Inr (r, s1)"
  shows "Ptr e s1 ptr = Inr (r, s1) \<and>
         (\<exists>evs. events s1 = events s @ evs \<and> length (filter is_copy evs) \<le> 1)"
proof (cases "MmDeviceIniFilter e")
  case (Inl err)
  with assms show ?thesis by (simp add: Ptr_def)
next
  case (Inr pass)
  show ?thesis
  proof (cases pass)
    case True
    with Inr assms show ?thesis by (auto simp: Ptr_def)
  next
    case False
    with Inr have filter: "MmDeviceIniFilter e = Inr False" by simp
    show ?thesis
    proof (cases "Known (mm_maps s) ptr")
      case True
      with filter assms have k: "PtrKnown e s ptr = Inr (r, s1)"
        by (simp add: Ptr_def)
      from PtrKnown_again [OF k] PtrKnown_events [OF k] filter show ?thesis
        by (simp add: Ptr_def)
    next
      case unknown: False
      from assms filter unknown obtain b s' where a: "Alias e s ptr = Inr (b, s')"
        by (auto simp: Ptr_def split: sum.splits)
      note fr = Alias_frame [OF a, of ptr]
      show ?thesis
      proof (cases b)
        case True
        with assms filter unknown a have p: "PtrAlias e s' ptr = Inr (r, s1)"
          by (simp add: Ptr_def)
        from PtrAlias_again [OF p] fr unknown
        have "\<not> Known (mm_maps s1) ptr" and "Alias e s1 ptr = Inr (True, s1)"
          and "PtrAlias e s1 ptr = Inr (r, s1)"
          by (simp_all add: Alias_cached)
        with filter PtrAlias_events [OF p] fr show ?thesis
          by (simp add: Ptr_def)
      next
        case False
        with a have "s' = s" by (simp add: Alias_False_unchanged)
        with assms filter unknown a False show ?thesis
          by (auto simp: Ptr_def split: if_splits)
      qed
    qed
  qed
qed

lemma PtrKnown_returns:
  assumes "lookup_memory s ptr = Some m" and "guards_pass e s m ptr"
  shows "\<exists>r s1. PtrKnown e s ptr = Inr (r, s1)"
proof (cases "host m \<and> \<not> UsingDevice e")
  case True
  with assms(1) show ?thesis by (simp add: PtrKnown_def)
next
  case False
  with assms(2) have g: "bytes m \<noteq> 0"
    "d_ptr m = 0 \<Longrightarrow> cu_alloc e (events s) (bytes m) \<noteq> 0"
    "\<not> (\<not> host m \<and> UsingDevice e) \<Longrightarrow> ptr \<noteq> 0"
    by (simp_all add: guards_pass_def split: if_splits)
  obtain d s' where en: "ensure_d_ptr e ptr m (bytes m) s = (d, s')"
    by (cases "ensure_d_ptr e ptr m (bytes m) s")
  with g(2) have "d \<noteq> 0" by (auto simp: ensure_d_ptr_def split: if_splits)
  with assms(1) False g(1,3) en show ?thesis
    by (cases "host m"; cases "UsingDevice e") (simp_all add: PtrKnown_def)
qed

lemma PtrAlias_returns:
  assumes "lookup_alias s ptr = Some a" and "alias_store s a = Some al"
    and "deref_memory s (mem al) = Some m" and "NDEBUG e \<or> 0 < offset al"
    and "guards_pass e s m (h_ptr m)"
  shows "\<exists>r s1. PtrAlias e s ptr = Inr (r, s1)"
proof (cases "host m \<and> \<not> UsingDevice e")
  case True
  then show ?thesis by (simp add: PtrAlias_resolved [OF assms(1-4)])
next
  case False
  with assms(5) have g: "bytes m \<noteq> 0"
    "d_ptr m = 0 \<Longrightarrow> cu_alloc e (events s) (bytes m) \<noteq> 0"
    "\<not> (\<not> host m \<and> UsingDevice e) \<Longrightarrow> h_ptr m \<noteq> 0"
    by (simp_all add: guards_pass_def split: if_splits)
  obtain d s' where en: "ensure_d_ptr_at e (mem al) m (bytes m) s = (d, s')"
    by (cases "ensure_d_ptr_at e (mem al) m (bytes m) s")
  with g(2) have "d \<noteq> 0" by (auto simp: ensure_d_ptr_at_def split: if_splits)
  with False g(1,3) en show ?thesis
    by (cases "host m"; cases "UsingDevice e")
      (simp_all add: PtrAlias_resolved [OF assms(1-4)])
qed

text \<open>
  C7. If a call of \<open>Ptr\<close> returns, a second call for the same pointer in the same
  mode returns the same pointer and leaves the state exactly as the first call left it:
  it issues no backend call at all. The first call issues at most one copy. This holds
  for every pointer and every state, also for an alias whose owner has been erased.
  The first call does return, with the manager on and not in pass-through mode, for a
  registered base whose record passes the guards of \<^verbatim>\<open>PtrKnown\<close>, and for a pointer
  that is no registered base, for which \<open>Alias\<close> answers true, and whose owner
  record, read through the alias object, passes the guards of \<^verbatim>\<open>PtrAlias\<close>.
\<close>

theorem C7_ptr_twice:
  "(Ptr e s ptr = Inr (r, s1) \<longrightarrow>
      Ptr e s1 ptr = Inr (r, s1) \<and>
      (\<exists>evs. events s1 = events s @ evs \<and> length (filter is_copy evs) \<le> 1)) \<and>
   (MmDeviceIniFilter e = Inr False \<and> lookup_memory s ptr = Some m \<and>
    guards_pass e s m ptr \<longrightarrow>
      (\<exists>r' s'. Ptr e s ptr = Inr (r', s') \<and> Ptr e s' ptr = Inr (r', s'))) \<and>
   (MmDeviceIniFilter e = Inr False \<and> \<not> Known (mm_maps s) ptr \<and>
    Alias e s ptr = Inr (True, sa) \<and> lookup_alias sa ptr = Some a \<and>
    alias_store sa a = Some al \<and> deref_memory sa (mem al) = Some m' \<and>
    (NDEBUG e \<or> 0 < offset al) \<and> guards_pass e sa m' (h_ptr m') \<longrightarrow>
      (\<exists>r' s'. Ptr e s ptr = Inr (r', s') \<and> Ptr e s' ptr = Inr (r', s')))"
proof -
  have twice: "Ptr e s ptr = Inr (r, s1) \<longrightarrow>
      Ptr e s1 ptr = Inr (r, s1) \<and>
      (\<exists>evs. events s1 = events s @ evs \<and> length (filter is_copy evs) \<le> 1)"
    using Ptr_again [of e s ptr r s1] by blast
  have known: "\<exists>r' s'. Ptr e s ptr = Inr (r', s') \<and> Ptr e s' ptr = Inr (r', s')"
    if a: "MmDeviceIniFilter e = Inr False \<and> lookup_memory s ptr = Some m \<and>
      guards_pass e s m ptr"
  proof -
    from a obtain r' s' where "PtrKnown e s ptr = Inr (r', s')"
      using PtrKnown_returns [of s ptr m e] by blast
    with a have "Ptr e s ptr = Inr (r', s')" by (simp add: Ptr_def Known_lookup)
    with Ptr_again [OF this] show ?thesis by blast
  qed
  have resolved: "\<exists>r' s'. Ptr e s ptr = Inr (r', s') \<and> Ptr e s' ptr = Inr (r', s')"
    if a: "MmDeviceIniFilter e = Inr False \<and> \<not> Known (mm_maps s) ptr \<and>
      Alias e s ptr = Inr (True, sa) \<and> lookup_alias sa ptr = Some a \<and>
      alias_store sa a = Some al \<and> deref_memory sa (mem al) = Some m' \<and>
      (NDEBUG e \<or> 0 < offset al) \<and> guards_pass e sa m' (h_ptr m')"
  proof -
    from a obtain r' s' where "PtrAlias e sa ptr = Inr (r', s')"
      using PtrAlias_returns [of sa ptr a al m' e] by blast
    with a have "Ptr e s ptr = Inr (r', s')" by (simp add: Ptr_def)
    with Ptr_again [OF this] show ?thesis by blast
  qed
  from twice known resolved show ?thesis by blast
qed

theorem C7_ptr_twice_witness:
  "Ptr env_active s_host 100 = Inr (7000, s_dev) \<and>
   Ptr env_active s_dev 100 = Inr (7000, s_dev) \<and>
   \<not> Known (mm_maps s_host) 140 \<and> lookup_alias s_host 140 = None \<and>
   Alias env_active s_host 140 = Inr (True, s_alias) \<and>
   Ptr env_active s_host 140 = Inr (7040, s_alias_dev) \<and>
   Ptr env_active s_alias_dev 140 = Inr (7040, s_alias_dev) \<and>
   Erase env_active s_alias_dev 100 = Inr (100, s_erased_dev) \<and>
   Ptr env_active s_erased_dev 140 = Inr (7040, s_erased_dev) \<and>
   MmDeviceIniFilter env_active = Inr False \<and>
   guards_pass env_active s_host
     \<lparr>bytes = 64, h_ptr = 100, d_ptr = 0, aliases = [], host = True\<rparr> 100 \<and>
   (\<exists>r' s'. Ptr env_active s_host 100 = Inr (r', s') \<and>
      Ptr env_active s' 100 = Inr (r', s')) \<and>
   lookup_alias s_alias 140 = Some 5000 \<and>
   alias_store s_alias 5000 = Some \<lparr>mem = 9000, offset = 40\<rparr> \<and>
   deref_memory s_alias 9000 =
     Some \<lparr>bytes = 64, h_ptr = 100, d_ptr = 0, aliases = [5000], host = True\<rparr> \<and>
   guards_pass env_active s_alias
     \<lparr>bytes = 64, h_ptr = 100, d_ptr = 0, aliases = [5000], host = True\<rparr> 100 \<and>
   (\<exists>r' s'. Ptr env_active s_host 140 = Inr (r', s') \<and>
      Ptr env_active s' 140 = Inr (r', s'))"
proof -
  let ?m = "\<lparr>bytes = 64, h_ptr = 100, d_ptr = 0, aliases = [], host = True\<rparr>"
  let ?m' = "\<lparr>bytes = 64, h_ptr = 100, d_ptr = 0, aliases = [5000], host = True\<rparr>"
  let ?al = "\<lparr>mem = 9000, offset = 40\<rparr>"
  have base: "Ptr env_active s_host 100 = Inr (7000, s_dev)"
    by (simp add: env_defs state_defs step_defs op_defs)
  have interior: "Ptr env_active s_host 140 = Inr (7040, s_alias_dev)"
    by (simp add: env_defs state_defs step_defs op_defs)
  have erase: "Erase env_active s_alias_dev 100 = Inr (100, s_erased_dev)"
    by (simp add: env_defs state_defs step_defs op_defs)
  have stale: "Ptr env_active s_erased_dev 140 = Inr (7040, s_erased_dev)"
    by (simp add: env_defs state_defs step_defs op_defs)
  have unknown: "\<not> Known (mm_maps s_host) 140" "lookup_alias s_host 140 = None"
    by (simp_all add: s_host_def Known_def lookup_alias_def)
  have res: "Alias env_active s_host 140 = Inr (True, s_alias)"
    by (simp add: env_defs state_defs step_defs op_defs)
  have filter: "MmDeviceIniFilter env_active = Inr False"
    by (simp add: env_defs MmDeviceIniFilter_def)
  have m: "lookup_memory s_host 100 = Some ?m"
    by (simp add: s_host_def lookup_memory_def)
  have g: "guards_pass env_active s_host ?m 100"
    by (simp add: guards_pass_def env_defs s_host_def)
  have l: "lookup_alias s_alias 140 = Some 5000" "alias_store s_alias 5000 = Some ?al"
    "deref_memory s_alias 9000 = Some ?m'"
    by (simp_all add: s_alias_def lookup_alias_def deref_memory_def)
  have g': "guards_pass env_active s_alias ?m' 100"
    by (simp add: guards_pass_def env_defs s_alias_def)
  have ndebug: "NDEBUG env_active"
    by (simp add: env_defs)
  note twice = C7_ptr_twice [THEN conjunct1, rule_format]
  note known = C7_ptr_twice [THEN conjunct2, THEN conjunct1, rule_format]
  note resolved = C7_ptr_twice [THEN conjunct2, THEN conjunct2, rule_format]
  have 1: "Ptr env_active s_dev 100 = Inr (7000, s_dev)"
    using twice [OF base] by simp
  have 2: "Ptr env_active s_alias_dev 140 = Inr (7040, s_alias_dev)"
    using twice [OF interior] by simp
  have 3: "\<exists>r' s'. Ptr env_active s_host 100 = Inr (r', s') \<and>
      Ptr env_active s' 100 = Inr (r', s')"
    using filter m g by (intro known [of env_active s_host 100 ?m]) simp
  have 4: "\<exists>r' s'. Ptr env_active s_host 140 = Inr (r', s') \<and>
      Ptr env_active s' 140 = Inr (r', s')"
    using filter unknown res l g' ndebug
    by (intro resolved [of env_active s_host 140 s_alias 5000 ?al ?m']) simp
  from base 1 unknown res interior 2 erase stale filter g 3 l g' 4
  show ?thesis by simp
qed

subsection \<open>Ptr on a registered base\<close>

lemma Ptr_known:
  "MmDeviceIniFilter e = Inr False \<Longrightarrow> lookup_memory s ptr = Some m \<Longrightarrow>
   Ptr e s ptr = PtrKnown e s ptr"
  by (simp add: Ptr_def Known_lookup)




subsection \<open>memcpy of zero bytes\<close>

lemma Ptr_settled:
  assumes "MmDeviceIniFilter e = Inr False" and "lookup_memory s ptr = Some m"
    and "if UsingDevice e then \<not> host m \<and> bytes m \<noteq> 0 \<and> d_ptr m \<noteq> 0 else host m"
  shows "Ptr e s ptr = Inr (if UsingDevice e then d_ptr m else ptr, s)"
proof (cases "UsingDevice e")
  case True
  with assms(3) have "\<not> host m" "bytes m \<noteq> 0" "d_ptr m \<noteq> 0" by simp_all
  with True assms(2) show ?thesis
    by (simp add: Ptr_known [OF assms(1,2)] PtrKnown_def ensure_d_ptr_def)
next
  case False
  with assms(3) have "host m" by simp
  with False assms(2) show ?thesis
    by (simp add: Ptr_known [OF assms(1,2)] PtrKnown_def)
qed

lemma Ptr_pass_through: "MmDeviceIniFilter e = Inr True \<Longrightarrow> Ptr e s ptr = Inr (ptr, s)"
  by (simp add: Ptr_def)

text \<open>
  C9 (amended). \<open>memcpy\<close> with 0 bytes resolves \<open>dst\<close> and then \<open>src\<close> through
  \<open>Ptr\<close> before it looks at the size. It fails where one of the two resolutions
  fails; otherwise it returns \<open>dst\<close> and issues no copy of its own, so the state it
  leaves is the state the two resolutions leave. The state is unchanged in pass-through
  mode, and when both pointers are registered bases whose valid copy is already on the
  side the mode asks for.
\<close>

theorem C9_memcpy_zero_bytes:
  "mm_memcpy e s dst src 0 async =
     (case Ptr e s dst of
        Inl err \<Rightarrow> Inl err
      | Inr (d_dst, s1) \<Rightarrow>
          (case Ptr e s1 src of Inl err \<Rightarrow> Inl err | Inr (d_src, s2) \<Rightarrow> Inr (dst, s2))) \<and>
   (MmDeviceIniFilter e = Inr True \<longrightarrow> mm_memcpy e s dst src 0 async = Inr (dst, s)) \<and>
   (MmDeviceIniFilter e = Inr False \<and>
    lookup_memory s dst = Some m1 \<and> lookup_memory s src = Some m2 \<and>
    (if UsingDevice e
     then \<not> host m1 \<and> bytes m1 \<noteq> 0 \<and> d_ptr m1 \<noteq> 0 \<and>
          \<not> host m2 \<and> bytes m2 \<noteq> 0 \<and> d_ptr m2 \<noteq> 0
     else host m1 \<and> host m2) \<longrightarrow>
      mm_memcpy e s dst src 0 async = Inr (dst, s))"
proof (intro conjI impI)
  show "mm_memcpy e s dst src 0 async =
     (case Ptr e s dst of
        Inl err \<Rightarrow> Inl err
      | Inr (d_dst, s1) \<Rightarrow>
          (case Ptr e s1 src of Inl err \<Rightarrow> Inl err | Inr (d_src, s2) \<Rightarrow> Inr (dst, s2)))"
    by (simp add: mm_memcpy_def split: sum.splits prod.splits)
next
  assume "MmDeviceIniFilter e = Inr True"
  then show "mm_memcpy e s dst src 0 async = Inr (dst, s)"
    by (simp add: mm_memcpy_def Ptr_pass_through)
next
  assume a: "MmDeviceIniFilter e = Inr False \<and>
    lookup_memory s dst = Some m1 \<and> lookup_memory s src = Some m2 \<and>
    (if UsingDevice e
     then \<not> host m1 \<and> bytes m1 \<noteq> 0 \<and> d_ptr m1 \<noteq> 0 \<and>
          \<not> host m2 \<and> bytes m2 \<noteq> 0 \<and> d_ptr m2 \<noteq> 0
     else host m1 \<and> host m2)"
  have "Ptr e s dst = Inr (if UsingDevice e then d_ptr m1 else dst, s)"
    using a by (intro Ptr_settled [of e s dst m1]) (simp_all split: if_splits)
  moreover have "Ptr e s src = Inr (if UsingDevice e then d_ptr m2 else src, s)"
    using a by (intro Ptr_settled [of e s src m2]) (simp_all split: if_splits)
  ultimately show "mm_memcpy e s dst src 0 async = Inr (dst, s)"
    by (simp add: mm_memcpy_def)
qed

theorem C9_memcpy_zero_bytes_witness:
  "MmDeviceIniFilter env_off = Inr True \<and>
   mm_memcpy env_off s_host 100 100 0 False = Inr (100, s_host) \<and>
   MmDeviceIniFilter env_active = Inr False \<and>
   lookup_memory s_dev 100 =
     Some \<lparr>bytes = 64, h_ptr = 100, d_ptr = 7000, aliases = [], host = False\<rparr> \<and>
   mm_memcpy env_active s_dev 100 100 0 True = Inr (100, s_dev)"
proof -
  let ?d = "\<lparr>bytes = 64, h_ptr = 100, d_ptr = 7000, aliases = [], host = False\<rparr>"
  have off: "MmDeviceIniFilter env_off = Inr True"
    and active: "MmDeviceIniFilter env_active = Inr False"
    by (simp_all add: env_defs MmDeviceIniFilter_def)
  have d: "lookup_memory s_dev 100 = Some ?d"
    by (simp add: s_dev_def lookup_memory_def)
  have gpu: "UsingDevice env_active"
    by (simp add: env_defs)
  from C9_memcpy_zero_bytes [of env_off s_host 100 100 False, THEN conjunct2, THEN conjunct1] off
  have 1: "mm_memcpy env_off s_host 100 100 0 False = Inr (100, s_host)"
    by simp
  from C9_memcpy_zero_bytes [of env_active s_dev 100 100 True ?d ?d, THEN conjunct2, THEN conjunct2]
    active d gpu
  have 2: "mm_memcpy env_active s_dev 100 100 0 True = Inr (100, s_dev)"
    by simp
  from off active d 1 2 show ?thesis by simp
qed

theorem C9_counterexample:
  "events s_host = [] \<and>
   lookup_memory s_host 100 =
     Some \<lparr>bytes = 64, h_ptr = 100, d_ptr = 0, aliases = [], host = True\<rparr> \<and>
   mm_memcpy env_active s_host 100 100 0 False = Inr (100, s_dev) \<and>
   events s_dev = [CuMemAlloc 7000 64, CuMemcpyHtoD 7000 100 64] \<and>
   lookup_memory s_dev 100 =
     Some \<lparr>bytes = 64, h_ptr = 100, d_ptr = 7000, aliases = [], host = False\<rparr> \<and>
   mm_memcpy env_active s_host 300 100 0 False =
     Inl (mfem_error ''Trying to use unknown pointer on the DEVICE!'')"
  by (simp add: env_defs state_defs step_defs op_defs)

subsection \<open>Erase and the cached aliases\<close>

lemma fold_delete_absent:
  "\<forall>a \<in> set as. a \<notin> fst ` set al \<Longrightarrow> fold AList.delete as al = al"
  by (induction as) simp_all

lemma Erase_keeps_alias_cache:
  assumes "UsingMM e" and "lookup_memory s ptr = Some m"
    and "\<forall>a \<in> set (memory.aliases m). a \<notin> fst ` set (ledger.aliases (mm_maps s))"
  shows "\<exists>s'. Erase e s ptr = Inr (ptr, s') \<and>
              ledger.aliases (mm_maps s') = ledger.aliases (mm_maps s)"
proof -
  from assms(2) obtain nd where "map_of (memories (mm_maps s)) ptr = Some (nd, m)"
    by (auto simp: lookup_memory_def)
  from Erase_registered [OF assms(1) this] assms(3) show ?thesis
    by (simp add: fold_delete_absent)
qed

text \<open>
  C2. The claim fails on the code. After \<^verbatim>\<open>Insert(100, 64)\<close> and a first
  \<^verbatim>\<open>Alias(140)\<close>, whose alias object is created at address 5000, \<^verbatim>\<open>Erase(100)\<close>
  removes the buffer and leaves the entry for 140 in the cache: it erases the key 5000,
  the address of the alias object, and the cache is keyed by the interior pointer. A
  later \<^verbatim>\<open>Alias(140)\<close> answers true from the stale entry.
\<close>

theorem C2_erase_leaves_alias_cached:
  "Insert env_active s_empty 100 64 = Inr (100, s_host) \<and>
   Alias env_active s_host 140 = Inr (True, s_alias) \<and>
   lookup_alias s_alias 140 = Some 5000 \<and>
   Erase env_active s_alias 100 = Inr (100, s_erased) \<and>
   \<not> Known (mm_maps s_erased) 100 \<and>
   lookup_alias s_erased 140 = Some 5000 \<and>
   Alias env_active s_erased 140 = Inr (True, s_erased)"
  by (simp add: env_defs state_defs step_defs op_defs)

subsection \<open>Alias after Erase\<close>

text \<open>
  C8. The claim fails on the code, through the defect of C2. After \<^verbatim>\<open>Insert(100, 64)\<close>,
  a first \<^verbatim>\<open>Alias(140)\<close> and \<^verbatim>\<open>Erase(100)\<close>, the cache still holds the entry for 140
  with offset 40. Register a new buffer of 64 bytes at 120: now 140 lies strictly inside
  it, at offset 20, and is no registered base, but \<^verbatim>\<open>Alias(140)\<close> answers true from the
  stale entry and neither rescans nor caches a record with offset 20; the cached record
  keeps offset 40 and the address of the erased buffer's node. That node is the one
  the new buffer got, so with the device in use \<^verbatim>\<open>Ptr(140)\<close> pushes the new buffer
  to its mirror at 7000 and returns 7000 + 40 = 7040, the device address of host
  address 160, where 7020 belongs to 140. Register instead a buffer at 140 itself: the
  cache then holds an alias whose key is a registered base.
\<close>

theorem C8_stale_alias_answers_for_new_buffer:
  "Insert env_active s_empty 100 64 = Inr (100, s_host) \<and>
   Alias env_active s_host 140 = Inr (True, s_alias) \<and>
   Erase env_active s_alias 100 = Inr (100, s_erased) \<and>
   Insert env_active s_erased 120 64 = Inr (120, s_reused) \<and>
   lookup_memory s_reused 120 =
     Some \<lparr>bytes = 64, h_ptr = 120, d_ptr = 0, aliases = [], host = True\<rparr> \<and>
   \<not> Known (mm_maps s_reused) 140 \<and>
   IsAlias_scan (memories (mm_maps s_reused)) 140 = 120 \<and>
   Alias env_active s_reused 140 = Inr (True, s_reused) \<and>
   lookup_alias s_reused 140 = Some 5000 \<and>
   alias_store s_reused 5000 = Some \<lparr>mem = 9000, offset = 40\<rparr> \<and>
   Ptr env_active s_reused 140 = Inr (7040, s_reused_dev) \<and>
   Insert env_active s_erased 140 8 = Inr (140, s_clash) \<and>
   Known (mm_maps s_clash) 140 \<and>
   lookup_alias s_clash 140 = Some 5000"
  by (simp add: env_defs state_defs step_defs op_defs)

subsection \<open>The stored pointers can always be followed\<close>

text \<open>
  \<open>pointers_ok\<close> holds of the empty manager and every operation keeps it, so the
  \<open>dangling\<close> exits of \<open>PtrAlias\<close>, \<open>PushAlias\<close> and \<open>PullAlias\<close> are never taken:
  whatever \<^verbatim>\<open>Erase\<close> leaves behind, an alias points to storage that held a record.
\<close>

lemma node_record_None_iff:
  "node_record xs nd = None \<longleftrightarrow> nd \<notin> (\<lambda>x. fst (snd x)) ` set xs"
  by (induction xs nd rule: node_record.induct) auto

lemma deref_None_iff:
  "deref_memory s nd = None \<longleftrightarrow>
     nd \<notin> (\<lambda>x. fst (snd x)) ` set (memories (mm_maps s)) \<and> freed s nd = None"
  using node_record_None_iff [of "memories (mm_maps s)" nd]
  by (cases "node_record (memories (mm_maps s)) nd") (simp_all add: deref_memory_def)

lemma alias_ok_iff:
  "(case alias_store s a of None \<Rightarrow> False | Some al \<Rightarrow> deref_memory s (mem al) \<noteq> None) \<longleftrightarrow>
   (\<exists>al. alias_store s a = Some al \<and>
      (mem al \<in> (\<lambda>x. fst (snd x)) ` set (memories (mm_maps s)) \<or> freed s (mem al) \<noteq> None))"
  by (cases "alias_store s a") (simp_all add: deref_None_iff)

lemma pointers_ok_iff:
  "pointers_ok s \<longleftrightarrow>
     distinct (map fst (memories (mm_maps s))) \<and>
     (\<forall>x \<in> set (ledger.aliases (mm_maps s)). \<exists>al. alias_store s (snd x) = Some al \<and>
        (mem al \<in> (\<lambda>x. fst (snd x)) ` set (memories (mm_maps s)) \<or>
         freed s (mem al) \<noteq> None))"
  by (simp add: pointers_ok_def list_all_iff split_def alias_ok_iff)

lemma keys_map_entry: "map fst (AList.map_entry k f xs) = map fst xs"
  by (induction xs) auto

lemma nodes_map_entry:
  "(\<lambda>x. fst (snd x)) ` set (AList.map_entry k (apsnd f) xs) = (\<lambda>x. fst (snd x)) ` set xs"
  by (induction xs) auto

lemma nodes_map_node:
  "(\<lambda>x. fst (snd x)) ` set (map_node nd f xs) = (\<lambda>x. fst (snd x)) ` set xs"
proof -
  have "map (\<lambda>x. fst (snd x)) (map_node nd f xs) = map (\<lambda>x. fst (snd x)) xs"
    by (induction xs) auto
  then have "set (map (\<lambda>x. fst (snd x)) (map_node nd f xs)) = set (map (\<lambda>x. fst (snd x)) xs)"
    by (rule arg_cong)
  then show ?thesis by simp
qed

lemma pointers_ok_update [simp]: "pointers_ok (update_memory b f s) = pointers_ok s"
  by (simp add: pointers_ok_iff update_memory_def keys_map_entry nodes_map_entry)

lemma pointers_ok_log [simp]: "pointers_ok (log_event ev s) = pointers_ok s"
  by (simp add: pointers_ok_iff log_event_def)

lemma pointers_ok_write [simp]: "pointers_ok (write_memory nd f s) = pointers_ok s"
proof (cases "node_record (memories (mm_maps s)) nd")
  case None
  have "((freed s)(nd := map_option f (freed s nd))) x \<noteq> None \<longleftrightarrow> freed s x \<noteq> None" for x
    by simp
  with None show ?thesis by (simp add: pointers_ok_iff write_memory_def del: fun_upd_apply)
next
  case (Some m)
  then show ?thesis
    by (simp add: pointers_ok_iff write_memory_def keys_map_node nodes_map_node)
qed

lemma pointers_ok_ensure:
  "ensure_d_ptr e b m n s = (d, s') \<Longrightarrow> pointers_ok s' = pointers_ok s"
  by (auto simp: ensure_d_ptr_def alloc_d_ptr_def Let_def split: if_splits)

lemma pointers_ok_ensure_at:
  "ensure_d_ptr_at e nd m n s = (d, s') \<Longrightarrow> pointers_ok s' = pointers_ok s"
  by (auto simp: ensure_d_ptr_at_def alloc_d_ptr_at_def Let_def split: if_splits)

lemma pointers_ok_empty: "pointers_ok s_empty"
  by (simp add: pointers_ok_def s_empty_def)

lemma Insert_pointers_ok:
  assumes "Insert e s p n = Inr (r, s')" and "pointers_ok s"
  shows "pointers_ok s'"
  using assms
  by (fastforce simp: Insert_def Let_def pointers_ok_iff Known_def map_of_eq_None_iff
      split: if_splits)

lemma nodes_delete:
  assumes "distinct (map fst xs)" and "map_of xs k = Some (nd, m)"
    and "x \<in> (\<lambda>x. fst (snd x)) ` set xs" and "x \<noteq> nd"
  shows "x \<in> (\<lambda>x. fst (snd x)) ` set (AList.delete k xs)"
proof -
  from assms(3) obtain k' m' where in_xs: "(k', x, m') \<in> set xs" by force
  from in_xs have "map_of xs k' = Some (x, m')" by (rule map_of_is_SomeI [OF assms(1)])
  with assms(2,4) have "k' \<noteq> k" by auto
  with in_xs have "(k', x, m') \<in> set (AList.delete k xs)" by (simp add: AList.delete_eq)
  then show ?thesis by force
qed

lemma set_fold_delete: "set (fold AList.delete ks xs) \<subseteq> set xs"
proof (induction ks arbitrary: xs)
  case Nil
  show ?case by simp
next
  case (Cons k ks)
  have "set (fold AList.delete ks (AList.delete k xs)) \<subseteq> set (AList.delete k xs)"
    by (rule Cons.IH)
  moreover have "set (AList.delete k xs) \<subseteq> set xs" by (auto simp: AList.delete_eq)
  ultimately show ?case by auto
qed

lemma Erase_pointers_ok:
  assumes "Erase e s p = Inr (r, s')" and "pointers_ok s"
  shows "pointers_ok s'"
proof (cases "UsingMM e")
  case False
  with assms show ?thesis by (simp add: Erase_def)
next
  case True
  with assms(1) obtain nd m where reg: "map_of (memories (mm_maps s)) p = Some (nd, m)"
    by (auto simp: Erase_def Known_def split: if_splits)
  from assms(2) have d: "distinct (map fst (memories (mm_maps s)))"
    by (simp add: pointers_ok_iff)
  from assms(1) Erase_registered [OF True reg] have s': "s' = s
      \<lparr>mm_maps := \<lparr>memories = AList.delete p (memories (mm_maps s)),
                  aliases = fold AList.delete (memory.aliases m) (ledger.aliases (mm_maps s))\<rparr>,
       freed := (freed s)(nd \<mapsto> m\<lparr>memory.aliases := []\<rparr>)\<rparr>"
    by auto
  have "distinct (map fst (AList.delete p (memories (mm_maps s))))"
    using d by (rule AList.distinct_delete)
  moreover have "\<exists>al. alias_store s (snd x) = Some al \<and>
        (mem al \<in> (\<lambda>x. fst (snd x)) ` set (AList.delete p (memories (mm_maps s))) \<or>
         ((freed s)(nd \<mapsto> m\<lparr>memory.aliases := []\<rparr>)) (mem al) \<noteq> None)"
    if "x \<in> set (fold AList.delete (memory.aliases m) (ledger.aliases (mm_maps s)))"
    for x
  proof -
    from that set_fold_delete have "x \<in> set (ledger.aliases (mm_maps s))" by blast
    with assms(2) obtain al where al: "alias_store s (snd x) = Some al"
      "mem al \<in> (\<lambda>x. fst (snd x)) ` set (memories (mm_maps s)) \<or> freed s (mem al) \<noteq> None"
      by (fastforce simp: pointers_ok_iff)
    show ?thesis
    proof (cases "mem al = nd")
      case True
      with al(1) show ?thesis by simp
    next
      case False
      with al nodes_delete [OF d reg, of "mem al"] show ?thesis by auto
    qed
  qed
  ultimately show ?thesis unfolding s' by (simp add: pointers_ok_iff del: fun_upd_apply)
qed

lemma map_of_node:
  "map_of xs k = Some (nd, m) \<Longrightarrow> nd \<in> (\<lambda>x. fst (snd x)) ` set xs"
  by (force dest: map_of_SomeD)

lemma InsertAlias_pointers_ok:
  assumes "InsertAlias e s base p = Inr (r, s')" and "pointers_ok s"
  shows "pointers_ok s'"
proof -
  from assms(1) obtain nd m where reg: "map_of (memories (mm_maps s)) base = Some (nd, m)"
    by (auto simp: InsertAlias_def split: option.splits)
  define a where "a = new_alias e (alias_store s)"
  define al where "al = (if lookup_alias s p = None
     then ledger.aliases (mm_maps s) @ [(p, a)] else ledger.aliases (mm_maps s))"
  define s2 where "s2 =
     s\<lparr>alias_store := (alias_store s)(a \<mapsto> \<lparr>mem = nd, offset = int p - int base\<rparr>),
       mm_maps := (mm_maps s)\<lparr>ledger.aliases := al\<rparr>\<rparr>"
  from assms(1) reg have "pointers_ok s' = pointers_ok s2"
    by (auto simp: InsertAlias_def Let_def lookup_alias_def s2_def al_def a_def
        split: if_splits)
  moreover from assms(2) map_of_node [OF reg] have "pointers_ok s2"
    by (auto simp: pointers_ok_iff s2_def al_def)
  ultimately show ?thesis by simp
qed

lemma Alias_pointers_ok:
  assumes "Alias e s p = Inr (b, s')" and "pointers_ok s"
  shows "pointers_ok s'"
  using assms InsertAlias_pointers_ok
  by (fastforce simp: Alias_def split: if_splits sum.splits prod.splits)

lemma PtrKnown_pointers_ok:
  assumes "PtrKnown e s p = Inr (r, s')"
  shows "pointers_ok s' = pointers_ok s"
  using assms
  by (auto simp: PtrKnown_def ensure_d_ptr_def alloc_d_ptr_def Let_def
      split: option.splits if_splits)

lemma PtrAlias_pointers_ok:
  assumes "PtrAlias e s p = Inr (r, s')"
  shows "pointers_ok s' = pointers_ok s"
proof -
  from assms obtain a al base where l: "lookup_alias s p = Some a"
    "alias_store s a = Some al" "deref_memory s (mem al) = Some base"
    "NDEBUG e \<or> 0 < offset al"
    by (rule PtrAlias_lookups)
  from assms l(1-3) show ?thesis
  proof (cases rule: PtrAlias_cases)
    case same
    then show ?thesis by simp
  next
    case (dev d)
    from pointers_ok_ensure_at [OF dev(5)] show ?thesis .
  next
    case (pull d s1)
    from pointers_ok_ensure_at [OF pull(5)] pull(7) show ?thesis by simp
  next
    case (push d s1)
    from pointers_ok_ensure_at [OF push(5)] push(7) show ?thesis by simp
  qed
qed

lemma Ptr_pointers_ok:
  assumes "Ptr e s p = Inr (r, s')" and "pointers_ok s"
  shows "pointers_ok s'"
proof (cases "MmDeviceIniFilter e")
  case (Inl err)
  with assms show ?thesis by (simp add: Ptr_def)
next
  case (Inr pass)
  show ?thesis
  proof (cases pass)
    case True
    with Inr assms show ?thesis by (simp add: Ptr_def)
  next
    case False
    with Inr have filter: "MmDeviceIniFilter e = Inr False" by simp
    show ?thesis
    proof (cases "Known (mm_maps s) p")
      case True
      with filter assms PtrKnown_pointers_ok show ?thesis by (simp add: Ptr_def)
    next
      case False
      with filter assms(1) obtain b sa where al: "Alias e s p = Inr (b, sa)"
        by (cases "Alias e s p") (auto simp: Ptr_def)
      from al assms(2) have ok: "pointers_ok sa" by (rule Alias_pointers_ok)
      from filter False al assms(1) have "(b \<and> PtrAlias e sa p = Inr (r, s')) \<or> s' = sa"
        by (cases b) (simp_all add: Ptr_def split: if_splits)
      with ok PtrAlias_pointers_ok show ?thesis by blast
    qed
  qed
qed

lemma PtrKnown_not_dangling: "PtrKnown e s p \<noteq> Inl dangling"
  by (simp add: PtrKnown_def Let_def split: option.split prod.split)

lemma Alias_not_dangling: "Alias e s p \<noteq> Inl dangling"
  by (simp add: Alias_def IsAlias_def InsertAlias_def Let_def
      split: option.split prod.split sum.split)

lemma alias_followed:
  assumes "pointers_ok s" and "lookup_alias s p = Some a"
  obtains al base where "alias_store s a = Some al" and "deref_memory s (mem al) = Some base"
proof -
  from assms(2) have "(p, a) \<in> set (ledger.aliases (mm_maps s))"
    by (simp add: lookup_alias_def map_of_SomeD)
  with assms(1) that show ?thesis
    by (fastforce simp: pointers_ok_def list_all_iff split: option.splits)
qed

lemma PtrAlias_not_dangling:
  assumes "pointers_ok s"
  shows "PtrAlias e s p \<noteq> Inl dangling"
proof (cases "lookup_alias s p")
  case None
  then show ?thesis by (simp add: PtrAlias_def)
next
  case (Some a)
  with assms obtain al base where l: "alias_store s a = Some al"
    "deref_memory s (mem al) = Some base"
    by (rule alias_followed)
  show ?thesis
  proof (cases "NDEBUG e \<or> 0 < offset al")
    case True
    show ?thesis unfolding PtrAlias_resolved [OF Some l True] by (simp split: prod.split)
  next
    case False
    with Some l show ?thesis by (simp add: PtrAlias_def)
  qed
qed

lemma Ptr_not_dangling:
  assumes "pointers_ok s"
  shows "Ptr e s p \<noteq> Inl dangling"
proof (cases "MmDeviceIniFilter e")
  case (Inl err)
  then have "err \<noteq> dangling" by (auto simp: MmDeviceIniFilter_def split: if_splits)
  with Inl show ?thesis by (simp add: Ptr_def)
next
  case (Inr pass)
  show ?thesis
  proof (cases pass)
    case True
    with Inr show ?thesis by (simp add: Ptr_def)
  next
    case False
    with Inr have filter: "MmDeviceIniFilter e = Inr False" by simp
    show ?thesis
    proof (cases "Known (mm_maps s) p")
      case True
      with filter PtrKnown_not_dangling show ?thesis by (simp add: Ptr_def)
    next
      case unknown: False
      show ?thesis
      proof (cases "Alias e s p")
        case (Inl err)
        with Alias_not_dangling [of e s p] filter unknown show ?thesis
          by (simp add: Ptr_def)
      next
        case (Inr res)
        obtain b sa where res: "res = (b, sa)" by (cases res)
        from Inr res assms have "pointers_ok sa" by (auto intro: Alias_pointers_ok)
        then have "PtrAlias e sa p \<noteq> Inl dangling" by (rule PtrAlias_not_dangling)
        with filter unknown Inr res show ?thesis by (cases b) (simp_all add: Ptr_def)
      qed
    qed
  qed
qed

lemma PushKnown_pointers_ok:
  "PushKnown e s p n = Inr s' \<Longrightarrow> pointers_ok s' = pointers_ok s"
  by (auto simp: PushKnown_def ensure_d_ptr_def alloc_d_ptr_def Let_def
      split: option.splits if_splits)

lemma PushAlias_pointers_ok:
  "PushAlias s p n = Inr s' \<Longrightarrow> pointers_ok s' = pointers_ok s"
  by (auto simp: PushAlias_def split: option.splits)

lemma PullKnown_pointers_ok:
  "PullKnown e s p n = Inr s' \<Longrightarrow> pointers_ok s' = pointers_ok s"
  by (auto simp: PullKnown_def split: option.splits if_splits)

lemma PullAlias_pointers_ok:
  "PullAlias s p n = Inr s' \<Longrightarrow> pointers_ok s' = pointers_ok s"
  by (auto simp: PullAlias_def split: option.splits if_splits)

lemma Push_pointers_ok:
  assumes "Push e s p n = Inr s'" and "pointers_ok s"
  shows "pointers_ok s'"
proof (cases "MmDeviceIniFilter e = Inr False")
  case False
  with assms show ?thesis
    by (cases "MmDeviceIniFilter e") (auto simp: Push_def split: if_splits)
next
  case filter: True
  show ?thesis
  proof (cases "Known (mm_maps s) p")
    case True
    with filter assms PushKnown_pointers_ok show ?thesis
      by (simp add: Push_def split: if_splits)
  next
    case False
    with filter assms(1) obtain b sa where al: "Alias e s p = Inr (b, sa)"
      by (cases "Alias e s p") (auto simp: Push_def split: if_splits)
    from al assms(2) have ok: "pointers_ok sa" by (rule Alias_pointers_ok)
    from filter False al assms(1) have "(b \<and> PushAlias sa p n = Inr s') \<or> s' = sa"
      by (cases b) (simp_all add: Push_def split: if_splits)
    with ok PushAlias_pointers_ok show ?thesis by blast
  qed
qed

lemma Pull_pointers_ok:
  assumes "Pull e s p n = Inr s'" and "pointers_ok s"
  shows "pointers_ok s'"
proof (cases "MmDeviceIniFilter e = Inr False")
  case False
  with assms show ?thesis
    by (cases "MmDeviceIniFilter e") (auto simp: Pull_def split: if_splits)
next
  case filter: True
  show ?thesis
  proof (cases "Known (mm_maps s) p")
    case True
    with filter assms PullKnown_pointers_ok show ?thesis by (simp add: Pull_def)
  next
    case False
    with filter assms(1) obtain b sa where al: "Alias e s p = Inr (b, sa)"
      by (cases "Alias e s p") (auto simp: Pull_def)
    from al assms(2) have ok: "pointers_ok sa" by (rule Alias_pointers_ok)
    from filter False al assms(1) have "(b \<and> PullAlias sa p n = Inr s') \<or> s' = sa"
      by (cases b) (simp_all add: Pull_def split: if_splits)
    with ok PullAlias_pointers_ok show ?thesis by blast
  qed
qed

lemma mm_memcpy_pointers_ok:
  assumes "mm_memcpy e s dst src n async = Inr (r, s')" and "pointers_ok s"
  shows "pointers_ok s'"
proof -
  from assms(1) obtain d1 s1 where p1: "Ptr e s dst = Inr (d1, s1)"
    by (cases "Ptr e s dst") (auto simp: mm_memcpy_def)
  with assms(1) obtain d2 s2 where p2: "Ptr e s1 src = Inr (d2, s2)"
    by (cases "Ptr e s1 src") (auto simp: mm_memcpy_def)
  from p1 assms(2) have "pointers_ok s1" by (rule Ptr_pointers_ok)
  with p2 have "pointers_ok s2" by (rule Ptr_pointers_ok)
  moreover from assms(1) p1 p2 have "pointers_ok s' = pointers_ok s2"
    by (auto simp: mm_memcpy_def Let_def split: if_splits)
  ultimately show ?thesis by simp
qed

lemma filter_not_dangling: "MmDeviceIniFilter e \<noteq> Inl dangling"
  by (simp add: MmDeviceIniFilter_def)

lemma PushAlias_not_dangling:
  assumes "pointers_ok s"
  shows "PushAlias s p n \<noteq> Inl dangling"
proof (cases "lookup_alias s p")
  case None
  then show ?thesis by (simp add: PushAlias_def)
next
  case (Some a)
  with assms obtain al base where "alias_store s a = Some al"
    "deref_memory s (mem al) = Some base"
    by (rule alias_followed)
  with Some show ?thesis by (simp add: PushAlias_def)
qed

lemma PullAlias_not_dangling:
  assumes "pointers_ok s"
  shows "PullAlias s p n \<noteq> Inl dangling"
proof (cases "lookup_alias s p")
  case None
  then show ?thesis by (simp add: PullAlias_def)
next
  case (Some a)
  with assms obtain al base where "alias_store s a = Some al"
    "deref_memory s (mem al) = Some base"
    by (rule alias_followed)
  with Some show ?thesis by (simp add: PullAlias_def)
qed

lemma Push_not_dangling:
  assumes "pointers_ok s"
  shows "Push e s p n \<noteq> Inl dangling"
proof (cases "Alias e s p")
  case (Inl err)
  with Alias_not_dangling [of e s p] have "err \<noteq> dangling" by auto
  with Inl filter_not_dangling [of e] show ?thesis
    by (auto simp: Push_def PushKnown_def split: sum.splits bool.splits option.splits prod.splits)
next
  case (Inr res)
  obtain b sa where res: "res = (b, sa)" by (cases res)
  from Inr res assms have "pointers_ok sa" by (auto intro: Alias_pointers_ok)
  then have "PushAlias sa p n \<noteq> Inl dangling" by (rule PushAlias_not_dangling)
  with Inr res filter_not_dangling [of e] show ?thesis
    by (auto simp: Push_def PushKnown_def split: sum.splits bool.splits option.splits prod.splits)
qed

lemma Pull_not_dangling:
  assumes "pointers_ok s"
  shows "Pull e s p n \<noteq> Inl dangling"
proof (cases "Alias e s p")
  case (Inl err)
  with Alias_not_dangling [of e s p] have "err \<noteq> dangling" by auto
  with Inl filter_not_dangling [of e] show ?thesis
    by (auto simp: Pull_def PullKnown_def split: sum.splits bool.splits option.splits)
next
  case (Inr res)
  obtain b sa where res: "res = (b, sa)" by (cases res)
  from Inr res assms have "pointers_ok sa" by (auto intro: Alias_pointers_ok)
  then have "PullAlias sa p n \<noteq> Inl dangling" by (rule PullAlias_not_dangling)
  with Inr res filter_not_dangling [of e] show ?thesis
    by (auto simp: Pull_def PullKnown_def split: sum.splits bool.splits option.splits)
qed

lemma mm_memcpy_not_dangling:
  assumes "pointers_ok s"
  shows "mm_memcpy e s dst src n async \<noteq> Inl dangling"
proof (cases "Ptr e s dst")
  case (Inl err)
  with Ptr_not_dangling [OF assms, of e dst] show ?thesis by (auto simp: mm_memcpy_def)
next
  case (Inr res)
  obtain d1 s1 where res: "res = (d1, s1)" by (cases res)
  from Inr res assms have "pointers_ok s1" by (auto intro: Ptr_pointers_ok)
  then have "Ptr e s1 src \<noteq> Inl dangling" by (rule Ptr_not_dangling)
  with Inr res show ?thesis
    by (auto simp: mm_memcpy_def Let_def split: sum.splits)
qed

end
